theory Spec2Isabelle
  imports Complex_Main "HOL-Library.Sublist" "HOL-Library.AList" "HOL-Library.Log_Nat"
begin

section \<open>Python values, dictionaries and exceptions\<close>

text \<open>
  A Python \<open>dict\<close> keeps its keys in insertion order and holds each key once. It is
  modelled as an association list: \<open>map_of\<close> is the lookup, \<open>AList.update\<close> is
  \<open>d[k] = v\<close> (in place when the key is there, appended otherwise) and
  \<open>AList.delete\<close> is \<open>d.pop(k, None)\<close>. Strings are lists of characters; the
  channel names and summaries handled here are taken to be ASCII text.
\<close>

type_synonym ('k, 'v) dict = "('k \<times> 'v) list"

datatype pyval = PStr string | PInt int | PNone

datatype py_exn =
    ValidationError string
  | TypeError
  | ZeroDivisionError
  | OverflowError
  | KeyError string
  | InputParsingFailed py_exn
  | StepFailed string "py_exn option"
  | ExternalError string string

text \<open>\<open>d.get(k)\<close>: the value, or \<open>None\<close> when the key is absent.\<close>

definition py_get :: "(string, pyval) dict \<Rightarrow> string \<Rightarrow> pyval" where
  "py_get d k = (case map_of d k of None \<Rightarrow> PNone | Some v \<Rightarrow> v)"

section \<open>Step 1: the input parser (components/step_1_input_parser.py)\<close>

text \<open>
  \<open>ApiInput\<close> (main.py) and \<open>_CampaignInputInternal\<close> declare the same eight
  fields; \<open>run_pipeline\<close> hands \<open>input_data.dict()\<close> to \<open>parse_input\<close>, so the raw
  request reaching the parser has every field present and typed as declared.
\<close>

record ApiInput =
  business_type :: string
  location :: string
  goal_description :: string
  budget_min :: "int option"
  budget_max :: "int option"
  budget_fixed :: "int option"
  channel_preference :: string
  user_id :: string

definition allowed :: "string list" where
  "allowed = [''Online'', ''Offline'', ''Both'', ''AI Recommend'']"

definition check_channel_preference :: "string \<Rightarrow> py_exn + string" where
  "check_channel_preference v =
     (if v \<notin> set allowed then Inl (ValidationError ''channel_preference'') else Inr v)"

definition opt_int :: "int option \<Rightarrow> pyval" where
  "opt_int x = (case x of None \<Rightarrow> PNone | Some i \<Rightarrow> PInt i)"

text \<open>\<open>_CampaignInputInternal(**raw_input).dict()\<close>: validation, then the field dictionary.\<close>

definition CampaignInputInternal_dict :: "ApiInput \<Rightarrow> py_exn + (string, pyval) dict" where
  "CampaignInputInternal_dict raw_input =
     (case check_channel_preference (channel_preference raw_input) of
        Inl e \<Rightarrow> Inl e
      | Inr v \<Rightarrow> Inr
          [(''business_type'', PStr (business_type raw_input)),
           (''location'', PStr (location raw_input)),
           (''goal_description'', PStr (goal_description raw_input)),
           (''budget_min'', opt_int (budget_min raw_input)),
           (''budget_max'', opt_int (budget_max raw_input)),
           (''budget_fixed'', opt_int (budget_fixed raw_input)),
           (''channel_preference'', PStr v),
           (''user_id'', PStr (user_id raw_input))])"

text \<open>\<open>(a + b) // 2\<close> on dictionary values: floor division of integers, a
  \<open>TypeError\<close> on anything else.\<close>

fun add_floordiv2 :: "pyval \<Rightarrow> pyval \<Rightarrow> py_exn + pyval" where
  "add_floordiv2 (PInt a) (PInt b) = Inr (PInt ((a + b) div 2))"
| "add_floordiv2 _ _ = Inl TypeError"

text \<open>The \<open>if\<close>/\<open>elif\<close> chain that sets \<open>cleaned_data['budget']\<close>.\<close>

definition standardize_budget :: "(string, pyval) dict \<Rightarrow> py_exn + (string, pyval) dict" where
  "standardize_budget cleaned_data =
     (if py_get cleaned_data ''budget_fixed'' \<noteq> PNone then
        Inr (AList.update ''budget'' (py_get cleaned_data ''budget_fixed'') cleaned_data)
      else if py_get cleaned_data ''budget_min'' \<noteq> PNone
              \<and> py_get cleaned_data ''budget_max'' \<noteq> PNone then
        (case add_floordiv2 (py_get cleaned_data ''budget_min'')
                (py_get cleaned_data ''budget_max'') of
           Inl e \<Rightarrow> Inl e
         | Inr b \<Rightarrow> Inr (AList.update ''budget'' b cleaned_data))
      else if py_get cleaned_data ''budget_min'' \<noteq> PNone then
        Inr (AList.update ''budget'' (py_get cleaned_data ''budget_min'') cleaned_data)
      else
        Inr (AList.update ''budget'' (PInt 5000) cleaned_data))"

definition remove_redundant :: "(string, pyval) dict \<Rightarrow> (string, pyval) dict" where
  "remove_redundant cleaned_data =
     AList.delete ''budget_fixed''
       (AList.delete ''budget_max'' (AList.delete ''budget_min'' cleaned_data))"

text \<open>Every exception inside the \<open>try\<close> block is re-raised as
  \<open>ValueError("Input Parsing Failed: ...")\<close>.\<close>

definition parse_input :: "ApiInput \<Rightarrow> py_exn + (string, pyval) dict" where
  "parse_input raw_input =
     (case CampaignInputInternal_dict raw_input of
        Inl e \<Rightarrow> Inl (InputParsingFailed e)
      | Inr cleaned_data \<Rightarrow>
          (case standardize_budget cleaned_data of
             Inl e \<Rightarrow> Inl (InputParsingFailed e)
           | Inr cleaned_data' \<Rightarrow> Inr (remove_redundant cleaned_data')))"

section \<open>Strings\<close>

text \<open>\<open>str.lower()\<close> on ASCII text: the letters \<open>A\<close>..\<open>Z\<close> (codes 65..90) get bit 5 set.\<close>

definition lower_char :: "char \<Rightarrow> char" where
  "lower_char c =
     (if 65 \<le> (of_char c :: nat) \<and> (of_char c :: nat) \<le> 90
      then (case c of Char b0 b1 b2 b3 b4 b5 b6 b7 \<Rightarrow> Char b0 b1 b2 b3 b4 True b6 b7)
      else c)"

definition py_lower :: "string \<Rightarrow> string" where
  "py_lower s = map lower_char s"

text \<open>\<open>s.replace(old, new)\<close>: every occurrence of \<open>old\<close>, left to right and without
  overlap; with an empty \<open>old\<close>, \<open>new\<close> is put before every character and at the end.\<close>

fun replace_from :: "string \<Rightarrow> string \<Rightarrow> string \<Rightarrow> string" where
  "replace_from old new [] = []"
| "replace_from old new (c # cs) =
     (if old \<noteq> [] \<and> prefix old (c # cs)
      then new @ replace_from old new (drop (length old) (c # cs))
      else c # replace_from old new cs)"

definition py_replace :: "string \<Rightarrow> string \<Rightarrow> string \<Rightarrow> string" where
  "py_replace s old new =
     (if old = [] then new @ concat (map (\<lambda>c. c # new) s) else replace_from old new s)"

text \<open>\<open>sub in s\<close> on strings.\<close>

fun py_in :: "string \<Rightarrow> string \<Rightarrow> bool" where
  "py_in sub [] = (sub = [])"
| "py_in sub (c # cs) = (prefix sub (c # cs) \<or> py_in sub cs)"

text \<open>\<open>s.split(sep)\<close> for a non-empty separator; \<open>acc\<close> holds the current piece,
  reversed.\<close>

fun split_from :: "string \<Rightarrow> string \<Rightarrow> string \<Rightarrow> string list" where
  "split_from sep acc [] = [rev acc]"
| "split_from sep acc (c # cs) =
     (if sep \<noteq> [] \<and> prefix sep (c # cs)
      then rev acc # split_from sep [] (drop (length sep) (c # cs))
      else split_from sep (c # acc) cs)"

definition py_split :: "string \<Rightarrow> string \<Rightarrow> string list" where
  "py_split s sep = split_from sep [] s"

text \<open>\<open>s.split()\<close>: the maximal runs of characters that are not whitespace (ASCII
  whitespace: codes 9..13 and 28..32).\<close>

definition is_space :: "char \<Rightarrow> bool" where
  "is_space c = (let n = (of_char c :: nat) in (9 \<le> n \<and> n \<le> 13) \<or> (28 \<le> n \<and> n \<le> 32))"

fun split_ws_from :: "string \<Rightarrow> string \<Rightarrow> string list" where
  "split_ws_from acc [] = (if acc = [] then [] else [rev acc])"
| "split_ws_from acc (c # cs) =
     (if is_space c
      then (if acc = [] then split_ws_from [] cs else rev acc # split_ws_from [] cs)
      else split_ws_from (c # acc) cs)"

definition py_split_ws :: "string \<Rightarrow> string list" where
  "py_split_ws s = split_ws_from [] s"

section \<open>Python floats\<close>

text \<open>
  The allocator computes \<open>int(n * 0.2)\<close>, \<open>a / t\<close> and \<open>int(b * p)\<close> in floating
  point. A finite double is a pair \<open>(m, s)\<close> standing for \<open>m * 2 ^ s\<close>. Converting an
  integer, dividing two integers and multiplying two doubles all give the double nearest
  to the exact result, ties to the even mantissa, with 53 bits of mantissa and the exponent
  bounded below as for subnormal numbers. A result of magnitude \<open>2 ^ 1024\<close> or more is an
  \<open>OverflowError\<close> for a conversion or a division and is infinite for a product;
  \<open>int\<close> of an infinite float is an \<open>OverflowError\<close> too.
\<close>

type_synonym dbl = "int \<times> int"

datatype py_float = Finite dbl | Infinite

text \<open>\<open>n / d\<close> rounded to the nearest integer, ties to even, for \<open>0 \<le> n\<close> and \<open>0 < d\<close>.\<close>

definition rdiv_even :: "int \<Rightarrow> int \<Rightarrow> int" where
  "rdiv_even n d =
     (let q = n div d; r = n mod d
      in if 2 * r < d then q else if d < 2 * r then q + 1 else if even q then q else q + 1)"

text \<open>The floor of the binary logarithm of \<open>p / q\<close>, for positive \<open>p\<close> and \<open>q\<close>.\<close>

definition flog2 :: "int \<Rightarrow> int \<Rightarrow> int" where
  "flog2 p q =
     (let d = bitlen p - bitlen q
      in if (if 0 \<le> d then q * 2 ^ nat d \<le> p else q \<le> p * 2 ^ nat (- d)) then d else d - 1)"

definition round_pos :: "int \<Rightarrow> int \<Rightarrow> dbl" where
  "round_pos p q =
     (let s = max (flog2 p q) (- 1022) - 52
      in (if s \<le> 0 then rdiv_even (p * 2 ^ nat (- s)) q else rdiv_even p (q * 2 ^ nat s), s))"

text \<open>The double nearest to \<open>p / q\<close>, for \<open>0 < q\<close>.\<close>

definition round_double :: "int \<Rightarrow> int \<Rightarrow> dbl" where
  "round_double p q =
     (if p = 0 then (0, 0)
      else if 0 < p then round_pos p q
      else (case round_pos (- p) q of (m, s) \<Rightarrow> (- m, s)))"

definition too_large :: "dbl \<Rightarrow> bool" where
  "too_large x = (case x of (m, s) \<Rightarrow>
     (if 0 \<le> s then 2 ^ 1024 \<le> \<bar>m\<bar> * 2 ^ nat s else 2 ^ 1024 * 2 ^ nat (- s) \<le> \<bar>m\<bar>))"

definition float_of_int :: "int \<Rightarrow> py_exn + dbl" where
  "float_of_int n =
     (let x = round_double n 1 in if too_large x then Inl OverflowError else Inr x)"

text \<open>\<open>a / b\<close> on integers.\<close>

definition true_div :: "int \<Rightarrow> int \<Rightarrow> py_exn + dbl" where
  "true_div a b =
     (if b = 0 then Inl ZeroDivisionError
      else let x = (if 0 < b then round_double a b else round_double (- a) (- b))
           in if too_large x then Inl OverflowError else Inr x)"

definition float_mul :: "dbl \<Rightarrow> dbl \<Rightarrow> py_float" where
  "float_mul x y = (case x of (m1, s1) \<Rightarrow> case y of (m2, s2) \<Rightarrow>
     (let z = (if 0 \<le> s1 + s2 then round_double (m1 * m2 * 2 ^ nat (s1 + s2)) 1
               else round_double (m1 * m2) (2 ^ nat (- (s1 + s2))))
      in if too_large z then Infinite else Finite z))"

text \<open>\<open>int(x)\<close>: truncation towards zero.\<close>

fun py_int :: "py_float \<Rightarrow> py_exn + int" where
  "py_int Infinite = Inl OverflowError"
| "py_int (Finite (m, s)) =
     Inr (if 0 \<le> s then m * 2 ^ nat s else sgn m * (\<bar>m\<bar> div 2 ^ nat (- s)))"

text \<open>The literals \<open>0.2\<close> and \<open>0.3\<close>: the doubles nearest to 1/5 and 3/10.\<close>

definition lit_0_2 :: dbl where
  "lit_0_2 = (3602879701896397, - 54)"

definition lit_0_3 :: dbl where
  "lit_0_3 = (5404319552844595, - 54)"

text \<open>\<open>int(n * y)\<close> for an integer \<open>n\<close> and a float \<open>y\<close>.\<close>

definition int_times :: "int \<Rightarrow> dbl \<Rightarrow> py_exn + int" where
  "int_times n y =
     (case float_of_int n of Inl e \<Rightarrow> Inl e | Inr x \<Rightarrow> py_int (float_mul x y))"

text \<open>The real number a double stands for.\<close>

definition dval :: "dbl \<Rightarrow> real" where
  "dval x = real_of_int (fst x) * 2 powr real_of_int (snd x)"

section \<open>Step 8: the budget allocator (components/step_8_budget_allocator.py)\<close>

text \<open>The scan of the history summary for a channel of high return (lines 18 to 32).\<close>

definition find_high_roi :: "(string, string) dict \<Rightarrow> string list \<Rightarrow> string option" where
  "find_high_roi previous_results recommended_channels =
     (case map_of previous_results ''previous_campaign_summary'' of
        None \<Rightarrow> None
      | Some summary \<Rightarrow>
          if py_in ''highest Conversion Rate'' summary then
            (case py_split summary '' had the highest Conversion Rate'' of
               [] \<Rightarrow> None
             | part0 # _ \<Rightarrow>
                (case py_split_ws part0 of
                   [] \<Rightarrow> None
                 | w # ws \<Rightarrow>
                     find (\<lambda>rec_channel. py_in (last (w # ws)) rec_channel)
                       recommended_channels))
          else None)"

text \<open>The loop \<open>for i, channel in enumerate(recommended_channels)\<close> of the equal split.\<close>

fun initial_allocations ::
  "int \<Rightarrow> int \<Rightarrow> nat \<Rightarrow> string list \<Rightarrow> (string, int) dict \<Rightarrow> (string, int) dict" where
  "initial_allocations base_allocation remainder i [] adjusted = adjusted"
| "initial_allocations base_allocation remainder i (channel # rest) adjusted =
     initial_allocations base_allocation remainder (Suc i) rest
       (AList.update channel (base_allocation + (if int i < remainder then 1 else 0)) adjusted)"

definition reduction_for ::
  "(string, int) dict \<Rightarrow> int \<Rightarrow> int \<Rightarrow> string \<Rightarrow> py_exn + int" where
  "reduction_for adjusted boost_amount total_other_budget channel =
     (case map_of adjusted channel of
        None \<Rightarrow> Inl (KeyError channel)
      | Some a \<Rightarrow>
         (case true_div a total_other_budget of
            Inl e \<Rightarrow> Inl e
          | Inr proportion \<Rightarrow>
             (case int_times boost_amount proportion of
                Inl e \<Rightarrow> Inl e
              | Inr r1 \<Rightarrow>
                 (case int_times a lit_0_3 of
                    Inl e \<Rightarrow> Inl e
                  | Inr r2 \<Rightarrow> Inr (min r1 r2)))))"

text \<open>The loop that fills \<open>reductions\<close> and sums \<open>actual_boost_taken\<close>.\<close>

fun collect_reductions ::
  "(string, int) dict \<Rightarrow> string \<Rightarrow> int \<Rightarrow> int \<Rightarrow> string list
    \<Rightarrow> (string, int) dict \<times> int \<Rightarrow> py_exn + (string, int) dict \<times> int" where
  "collect_reductions adjusted high boost_amount total_other [] acc = Inr acc"
| "collect_reductions adjusted high boost_amount total_other (channel # rest)
      (reductions, actual_boost_taken) =
     (if channel \<noteq> high then
        (case reduction_for adjusted boost_amount total_other channel of
           Inl e \<Rightarrow> Inl e
         | Inr reduction \<Rightarrow>
             collect_reductions adjusted high boost_amount total_other rest
               (AList.update channel reduction reductions, actual_boost_taken + reduction))
      else collect_reductions adjusted high boost_amount total_other rest
             (reductions, actual_boost_taken))"

definition apply_reductions :: "(string, int) dict \<Rightarrow> (string, int) dict \<Rightarrow> (string, int) dict" where
  "apply_reductions reductions adjusted =
     fold (\<lambda>(channel, reduction). AList.map_entry channel (\<lambda>v. v - reduction))
       reductions adjusted"

definition apply_boost ::
  "int \<Rightarrow> string list \<Rightarrow> string \<Rightarrow> int \<Rightarrow> (string, int) dict \<Rightarrow> py_exn + (string, int) dict" where
  "apply_boost total_budget recommended_channels high base_allocation adjusted =
     (case map_of adjusted high of
        None \<Rightarrow> Inl (KeyError high)
      | Some a_high \<Rightarrow>
         (case int_times a_high lit_0_2 of
            Inl e \<Rightarrow> Inl e
          | Inr intended_boost \<Rightarrow>
             (let max_boost = base_allocation div 2;
                  boost_amount = min max_boost intended_boost;
                  total_other_budget = total_budget - a_high
              in if 0 < total_other_budget then
                   (case collect_reductions adjusted high boost_amount total_other_budget
                           recommended_channels ([], 0) of
                      Inl e \<Rightarrow> Inl e
                    | Inr (reductions, actual_boost_taken) \<Rightarrow>
                        if 0 < actual_boost_taken then
                          Inr (apply_reductions reductions
                                (AList.map_entry high (\<lambda>v. v + actual_boost_taken) adjusted))
                        else Inr adjusted)
                 else Inr adjusted)))"

text \<open>\<open>max(d, key=d.get)\<close> on a dictionary that is not empty: the first key, in
  iteration order, whose value is largest.\<close>

fun first_max :: "string \<times> int \<Rightarrow> (string, int) dict \<Rightarrow> string" where
  "first_max (k, v) [] = k"
| "first_max (k, v) ((k', v') # rest) =
     (if v < v' then first_max (k', v') rest else first_max (k, v) rest)"

text \<open>The final check: the difference to the total goes to the largest allocation.\<close>

definition final_adjust :: "int \<Rightarrow> (string, int) dict \<Rightarrow> (string, int) dict" where
  "final_adjust total_budget adjusted =
     (let current_total = sum_list (map snd adjusted);
          diff = total_budget - current_total
      in case adjusted of
           [] \<Rightarrow> adjusted
         | kv # rest \<Rightarrow>
             if diff \<noteq> 0
             then AList.map_entry (first_max kv rest) (\<lambda>v. v + diff) adjusted
             else adjusted)"

definition clamp_negative :: "(string, int) dict \<Rightarrow> (string, int) dict" where
  "clamp_negative adjusted = map (\<lambda>(channel, v). (channel, if v < 0 then 0 else v)) adjusted"

definition allocate_budget ::
  "int \<Rightarrow> string list \<Rightarrow> (string, string) dict \<Rightarrow> py_exn + (string, int) dict" where
  "allocate_budget total_budget recommended_channels previous_results =
     (let num_channels = int (length recommended_channels)
      in if num_channels = 0 \<or> total_budget \<le> 0 then Inr []
         else
           (let high_roi_channel = find_high_roi previous_results recommended_channels;
                base_allocation = total_budget div num_channels;
                remainder = total_budget mod num_channels;
                adjusted = initial_allocations base_allocation remainder 0
                             recommended_channels []
            in case (case high_roi_channel of
                       None \<Rightarrow> Inr adjusted
                     | Some high \<Rightarrow>
                         if high \<noteq> [] \<and> high \<in> set (map fst adjusted) \<and> 1 < num_channels
                         then apply_boost total_budget recommended_channels high
                                base_allocation adjusted
                         else Inr adjusted) of
                 Inl e \<Rightarrow> Inl e
               | Inr boosted \<Rightarrow>
                   Inr (final_adjust total_budget
                         (clamp_negative (final_adjust total_budget boosted)))))"

section \<open>Results of the generative steps\<close>

text \<open>
  The text-generation chains are external. A chain either raises or returns a value of
  the schema its step declares; \<open>ExternalError\<close> carries the name of the exception's type
  and its message. Each \<open>generate_*\<close> function returns either that value or the error
  object \<open>{"error": ..., "details": str(e), "raw_output": ...}\<close>; the field \<open>details\<close> is
  kept as the exception whose text it is.
\<close>

datatype 'a chain_outcome = Raises py_exn | Returns 'a

datatype 'a step_result = ErrorObject string "py_exn option" | Result 'a

text \<open>\<open>type(e).__name__\<close>.\<close>

fun type_name :: "py_exn \<Rightarrow> string" where
  "type_name (ValidationError f) = ''ValidationError''"
| "type_name TypeError = ''TypeError''"
| "type_name ZeroDivisionError = ''ZeroDivisionError''"
| "type_name OverflowError = ''OverflowError''"
| "type_name (KeyError k) = ''KeyError''"
| "type_name (InputParsingFailed e) = ''ValueError''"
| "type_name (StepFailed s d) = ''ValueError''"
| "type_name (ExternalError n m) = n"

text \<open>\<open>isinstance(x, dict) and x.get("error")\<close>: the error text, when it is not empty.\<close>

fun get_error :: "'a step_result \<Rightarrow> bool" where
  "get_error (ErrorObject err details) = (err \<noteq> [])"
| "get_error (Result r) = False"

fun get_details :: "'a step_result \<Rightarrow> py_exn option" where
  "get_details (ErrorObject err details) = details"
| "get_details (Result r) = None"

section \<open>Data handed between the steps\<close>

text \<open>The outputs of steps 4, 5 and 6, with the keys their functions return.\<close>

record TrendData =
  timing_recommendation :: string
  related_queries :: "string list"

record LocalContext =
  local_events_summary :: string
  competitor_types_summary :: string

record AudiencePersona =
  segment_name :: string
  description :: string
  key_pain_points :: "string list"
  preferred_channels :: "string list"
  motivation_triggers :: "string list"

section \<open>Step 3: the history lookup (components/step_3_db_retriever.py)\<close>

definition get_previous_results :: "pyval \<Rightarrow> (string, string) dict" where
  "get_previous_results uid =
     (if uid = PStr ''user123_with_history'' then
        [(''previous_campaign_summary'',
          ''Last campaign (Diwali Sale): Facebook Ads (Budget: 3k INR, Clicks: 45, Conversions: 8, Rate: 17.8%), Pamphlets (Budget: 2k INR, Scans: 15, Conversions: 5, Rate: 33.3%). Pamphlets had higher Conversion Rate.'')]
      else [(''previous_campaign_summary'', ''No previous campaign data found.'')])"

section \<open>Step 7: the strategy recommender (components/step_7_strategy_recommender.py)\<close>

text \<open>
  \<open>CampaignStrategy\<close> as the chain's parser returns it: a dictionary in which any of the
  declared keys may be missing, with integer budget values as the schema asks.
\<close>

record CampaignStrategy =
  recommended_channels :: "string list option"
  budget_split :: "(string, int) dict option"
  campaign_angle :: "string option"
  justification :: "string option"

text \<open>The fallback's loop is the allocator's: \<open>new_split[ch] = base + (1 if i < rem else 0)\<close>.\<close>

definition equal_resplit :: "int \<Rightarrow> string list \<Rightarrow> py_exn + (string, int) dict" where
  "equal_resplit total_budget channels =
     (let num_channels = int (length channels)
      in if num_channels = 0 then Inl ZeroDivisionError
         else Inr (initial_allocations (total_budget div num_channels)
                     (total_budget mod num_channels) 0 channels []))"

text \<open>The post-processing of the chain's result (lines 107 to 129).\<close>

definition postprocess_budget :: "int \<Rightarrow> CampaignStrategy \<Rightarrow> py_exn + CampaignStrategy" where
  "postprocess_budget total_budget result =
     (case budget_split result of
        None \<Rightarrow> Inr result
      | Some [] \<Rightarrow> Inr result
      | Some (kv # rest) \<Rightarrow>
          (let calculated_total = sum_list (map snd (kv # rest));
               budget_diff = total_budget - calculated_total
           in if budget_diff \<noteq> 0 then
                (let largest_channel = first_max kv rest;
                     adjusted = AList.map_entry largest_channel (\<lambda>v. v + budget_diff) (kv # rest)
                 in case map_of adjusted largest_channel of
                      None \<Rightarrow> Inl (KeyError largest_channel)
                    | Some v \<Rightarrow>
                        if v < 0 then
                          (case recommended_channels result of
                             None \<Rightarrow> Inl (KeyError ''recommended_channels'')
                           | Some channels \<Rightarrow>
                               (case equal_resplit total_budget channels of
                                  Inl e \<Rightarrow> Inl e
                                | Inr new_split \<Rightarrow>
                                    Inr (result\<lparr>budget_split := Some new_split\<rparr>)))
                        else Inr (result\<lparr>budget_split := Some adjusted\<rparr>))
              else Inr result))"

type_synonym strategy_input =
  "(string, pyval) dict \<times> AudiencePersona step_result \<times> LocalContext
     \<times> (string, string) dict"

text \<open>\<open>user_input.get('budget', 5000)\<close>; the subtraction needs an integer.\<close>

definition generate_strategy ::
  "(strategy_input \<Rightarrow> CampaignStrategy chain_outcome) option \<Rightarrow> strategy_input
     \<Rightarrow> CampaignStrategy step_result" where
  "generate_strategy strategy_chain inp =
     (case strategy_chain of
        None \<Rightarrow> ErrorObject ''Strategy generation chain not initialized.'' None
      | Some chain \<Rightarrow>
          (case chain inp of
             Raises e \<Rightarrow>
               ErrorObject (''Failed to generate strategy via LangChain: '' @ type_name e) (Some e)
           | Returns result \<Rightarrow>
               (case (case budget_split result of
                        None \<Rightarrow> Inr result
                      | Some [] \<Rightarrow> Inr result
                      | Some (kv # rest) \<Rightarrow>
                          (case map_of (fst inp) ''budget'' of
                             None \<Rightarrow> postprocess_budget 5000 result
                           | Some (PInt total_budget) \<Rightarrow> postprocess_budget total_budget result
                           | Some other \<Rightarrow> Inl TypeError)) of
                  Inl e \<Rightarrow>
                    ErrorObject (''Failed to generate strategy via LangChain: '' @ type_name e)
                      (Some e)
                | Inr result' \<Rightarrow> Result result')))"

section \<open>Steps 6, 9 and 10: persona, creative copy, visual prompts\<close>

type_synonym persona_input =
  "(string, pyval) dict \<times> (string, string list) dict \<times> TrendData \<times> LocalContext
     \<times> (string, string) dict"

definition generate_persona ::
  "(persona_input \<Rightarrow> AudiencePersona chain_outcome) option \<Rightarrow> persona_input
     \<Rightarrow> AudiencePersona step_result" where
  "generate_persona persona_chain inp =
     (case persona_chain of
        None \<Rightarrow> ErrorObject ''Persona generation chain not initialized.'' None
      | Some chain \<Rightarrow>
          (case chain inp of
             Raises e \<Rightarrow>
               ErrorObject (''Failed to generate persona via LangChain: '' @ type_name e) (Some e)
           | Returns result \<Rightarrow> Result result))"

text \<open>The field name the Creative Writer derives for a channel (line 37 of
  step_9_creative_writer.py).\<close>

definition key_name :: "string \<Rightarrow> string" where
  "key_name channel =
     py_replace (py_replace (py_replace (py_replace (py_lower channel) '' '' ''_'') ''-'' ''_'')
        ''&'' ''and'') ''.'' [] @ ''_copy''"

text \<open>The chain is built per request from the channels and their field names; what it is
  asked for is the angle, the persona and that list.\<close>

type_synonym creative_input =
  "string \<times> AudiencePersona step_result \<times> (string \<times> string) list"

definition generate_creative ::
  "(creative_input \<Rightarrow> (string, string) dict chain_outcome) option \<Rightarrow> string
     \<Rightarrow> AudiencePersona step_result \<Rightarrow> string list \<Rightarrow> (string, string) dict step_result" where
  "generate_creative llm campaign_angle_input audience_persona channels =
     (case llm of
        None \<Rightarrow> ErrorObject ''LLM not initialized for creative writing.'' None
      | Some chain \<Rightarrow>
          if channels = [] then Result []
          else
            (case chain (campaign_angle_input, audience_persona,
                         map (\<lambda>channel. (channel, key_name channel)) channels) of
               Raises e \<Rightarrow>
                 ErrorObject (''Failed to generate creative content via LangChain: '' @ type_name e)
                   (Some e)
             | Returns result \<Rightarrow> Result result))"

type_synonym visual_input =
  "string \<times> AudiencePersona step_result \<times> (string, string) dict step_result"

text \<open>The result holds the list under \<open>visual_prompts\<close>, or lacks the key.\<close>

definition generate_visual_prompts ::
  "(visual_input \<Rightarrow> string list option chain_outcome) option \<Rightarrow> visual_input
     \<Rightarrow> string list option step_result" where
  "generate_visual_prompts visual_chain inp =
     (case visual_chain of
        None \<Rightarrow> ErrorObject ''Visual prompt generation chain not initialized.'' None
      | Some chain \<Rightarrow>
          (case chain inp of
             Raises e \<Rightarrow>
               ErrorObject (''Failed to generate visual prompts via LangChain: '' @ type_name e)
                 (Some e)
           | Returns result \<Rightarrow> Result result))"

section \<open>The pipeline driver (main.py)\<close>

text \<open>
  The services the driver calls are parameters: entity extraction, the two search steps
  (taken to return their dictionaries, as their code always does) and the four chains.
\<close>

record collaborators =
  extract_entities :: "pyval \<Rightarrow> (string, string list) dict"
  analyze_trends_via_search :: "string list \<Rightarrow> pyval \<Rightarrow> TrendData"
  search_local_context :: "pyval \<Rightarrow> pyval \<Rightarrow> string option \<Rightarrow> LocalContext"
  persona_chain :: "(persona_input \<Rightarrow> AudiencePersona chain_outcome) option"
  strategy_chain :: "(strategy_input \<Rightarrow> CampaignStrategy chain_outcome) option"
  creative_llm :: "(creative_input \<Rightarrow> (string, string) dict chain_outcome) option"
  visual_chain :: "(visual_input \<Rightarrow> string list option chain_outcome) option"

record Content =
  suggested_copy :: string
  visual_prompt :: string
  call_to_action :: string

record ChannelRec =
  channel_name :: string
  allocated_budget :: int
  target_audience_specifics :: string
  content :: Content
  tracking_info_type :: string

record CampaignOverview =
  suggested_theme_name :: string
  strategic_angle :: string
  primary_target_audience :: "AudiencePersona step_result"
  overview_timing_recommendation :: string
  competitor_note :: string

record CampaignPlan =
  campaign_overview :: CampaignOverview
  channel_recommendations :: "ChannelRec list"
  feedback_loop_note :: string

datatype http_detail = Str py_exn | InternalError string

datatype http_exception = HTTPException nat http_detail

datatype step =
    ParseInput | ExtractEntities | GetPreviousResults | AnalyzeTrends | SearchLocalContext
  | GeneratePersona | GenerateStrategy | AllocateBudget | GenerateCreative
  | GenerateVisualPrompts | Aggregate

text \<open>
  The body of the \<open>try\<close> block runs against a trace of the steps called so far: a
  computation takes the trace and returns it, extended, with an exception or a value.
\<close>

type_synonym 'a run = "step list \<Rightarrow> step list \<times> (py_exn + 'a)"

definition call :: "step \<Rightarrow> py_exn + 'a \<Rightarrow> 'a run" where
  "call s r trace = (trace @ [s], r)"

definition bind_run :: "'a run \<Rightarrow> ('a \<Rightarrow> 'b run) \<Rightarrow> 'b run" where
  "bind_run m f trace =
     (case m trace of (trace', Inl e) \<Rightarrow> (trace', Inl e) | (trace', Inr x) \<Rightarrow> f x trace')"

definition raise_if :: "bool \<Rightarrow> py_exn \<Rightarrow> unit run" where
  "raise_if b e trace = (trace, if b then Inl e else Inr ())"

text \<open>\<open>d[k]\<close> and \<open>d.get(k, default)\<close>.\<close>

definition py_item :: "(string, 'v) dict \<Rightarrow> string \<Rightarrow> py_exn + 'v" where
  "py_item d k = (case map_of d k of None \<Rightarrow> Inl (KeyError k) | Some v \<Rightarrow> Inr v)"

definition get_default :: "(string, 'v) dict \<Rightarrow> string \<Rightarrow> 'v \<Rightarrow> 'v" where
  "get_default d k dflt = (case map_of d k of None \<Rightarrow> dflt | Some v \<Rightarrow> v)"

text \<open>The \<open>.get\<close> calls on the strategy, creative and visual results: an error object has
  none of the keys asked for.\<close>

fun strategy_channels :: "CampaignStrategy step_result \<Rightarrow> string list" where
  "strategy_channels (Result s) = (case recommended_channels s of None \<Rightarrow> [] | Some cs \<Rightarrow> cs)"
| "strategy_channels (ErrorObject err details) = []"

fun strategy_angle :: "CampaignStrategy step_result \<Rightarrow> string \<Rightarrow> string" where
  "strategy_angle (Result s) dflt = (case campaign_angle s of None \<Rightarrow> dflt | Some a \<Rightarrow> a)"
| "strategy_angle (ErrorObject err details) dflt = dflt"

fun channel_copy :: "(string, string) dict step_result \<Rightarrow> (string, string) dict" where
  "channel_copy (Result d) = d"
| "channel_copy (ErrorObject err details) = []"

fun visual_prompts_of :: "string list option step_result \<Rightarrow> string list" where
  "visual_prompts_of (Result r) = (case r of None \<Rightarrow> [] | Some ps \<Rightarrow> ps)"
| "visual_prompts_of (ErrorObject err details) = []"

text \<open>\<open>allocate_budget(cleaned_input.get('budget', 0), ...)\<close>: the comparison
  \<open>total_budget <= 0\<close> needs a number, and is reached only with a channel.\<close>

definition allocate_budget_of ::
  "pyval \<Rightarrow> string list \<Rightarrow> (string, string) dict \<Rightarrow> py_exn + (string, int) dict" where
  "allocate_budget_of budget channels previous_results =
     (case budget of
        PInt total_budget \<Rightarrow> allocate_budget total_budget channels previous_results
      | other \<Rightarrow> if channels = [] then Inr [] else Inl TypeError)"

text \<open>The copy-lookup key the aggregation loop computes (line 155 of main.py).\<close>

definition channel_copy_key :: "string \<Rightarrow> string" where
  "channel_copy_key channel =
     py_replace (py_replace (py_lower channel) '' '' ''_'') ''-'' ''_'' @ ''_copy''"

text \<open>The body of the loop \<open>for channel in recommended_channels\<close>.\<close>

definition channel_rec ::
  "(string, int) dict \<Rightarrow> (string, string) dict step_result \<Rightarrow> string list \<Rightarrow> string
     \<Rightarrow> ChannelRec" where
  "channel_rec split creative_content visual_prompts channel =
     \<lparr>channel_name = channel,
      allocated_budget = get_default split channel 0,
      target_audience_specifics = ''Targeting based on persona for '' @ channel,
      content =
        \<lparr>suggested_copy =
           get_default (channel_copy creative_content) (channel_copy_key channel) ''N/A'',
         visual_prompt =
           (case visual_prompts of [] \<Rightarrow> ''No visual prompt generated.'' | p # ps \<Rightarrow> p),
         call_to_action = ''Engage via '' @ channel @ ''!''\<rparr>,
      tracking_info_type =
        (if py_in ''Ads'' channel \<or> py_in ''Online'' channel then ''link'' else ''qr_code'')\<rparr>"

definition pipeline_body :: "collaborators \<Rightarrow> ApiInput \<Rightarrow> CampaignPlan run" where
  "pipeline_body env input_data =
     bind_run (call ParseInput (parse_input input_data)) (\<lambda>cleaned_input.
     bind_run (call ExtractEntities
        (case py_item cleaned_input ''goal_description'' of
           Inl e \<Rightarrow> Inl e | Inr g \<Rightarrow> Inr (extract_entities env g))) (\<lambda>entities.
     bind_run (call GetPreviousResults
        (case py_item cleaned_input ''user_id'' of
           Inl e \<Rightarrow> Inl e | Inr u \<Rightarrow> Inr (get_previous_results u))) (\<lambda>previous_results.
     bind_run (call AnalyzeTrends
        (case py_item cleaned_input ''location'' of
           Inl e \<Rightarrow> Inl e
         | Inr l \<Rightarrow> Inr (analyze_trends_via_search env
              (get_default entities ''products_services'' []
                 @ get_default entities ''misc_keywords'' []) l))) (\<lambda>trend_data.
     bind_run (call SearchLocalContext
        (Inr (search_local_context env
           (get_default cleaned_input ''location'' (PStr []))
           (get_default cleaned_input ''business_type'' (PStr []))
           (case get_default entities ''events'' [] of [] \<Rightarrow> None | ev # evs \<Rightarrow> Some ev))))
        (\<lambda>local_context.
     bind_run (call GeneratePersona
        (Inr (generate_persona (persona_chain env)
           (cleaned_input, entities, trend_data, local_context, previous_results))))
        (\<lambda>audience_persona.
     bind_run (raise_if (get_error audience_persona)
        (StepFailed ''Persona'' (get_details audience_persona))) (\<lambda>_.
     bind_run (call GenerateStrategy
        (Inr (generate_strategy (strategy_chain env)
           (cleaned_input, audience_persona, local_context, previous_results))))
        (\<lambda>campaign_strategy.
     bind_run (raise_if (get_error campaign_strategy)
        (StepFailed ''Strategy'' (get_details campaign_strategy))) (\<lambda>_.
     bind_run (call AllocateBudget
        (allocate_budget_of (get_default cleaned_input ''budget'' (PInt 0))
           (strategy_channels campaign_strategy) previous_results)) (\<lambda>budget_split.
     bind_run (call GenerateCreative
        (Inr (generate_creative (creative_llm env)
           (strategy_angle campaign_strategy ''Default Angle'') audience_persona
           (strategy_channels campaign_strategy)))) (\<lambda>creative_content.
     bind_run (raise_if (get_error creative_content)
        (StepFailed ''Creative'' (get_details creative_content))) (\<lambda>_.
     bind_run (call GenerateVisualPrompts
        (Inr (generate_visual_prompts (visual_chain env)
           (strategy_angle campaign_strategy ''Default Angle'', audience_persona,
            creative_content)))) (\<lambda>visual_prompts_result.
     bind_run (raise_if (get_error visual_prompts_result)
        (StepFailed ''Visual Prompt'' (get_details visual_prompts_result))) (\<lambda>_.
     call Aggregate (Inr
        \<lparr>campaign_overview =
           \<lparr>suggested_theme_name = strategy_angle campaign_strategy ''Generated Campaign'',
            strategic_angle = strategy_angle campaign_strategy ''N/A'',
            primary_target_audience = audience_persona,
            overview_timing_recommendation = timing_recommendation trend_data,
            competitor_note = competitor_types_summary local_context\<rparr>,
         channel_recommendations =
           map (channel_rec budget_split creative_content
                  (visual_prompts_of visual_prompts_result))
             (strategy_channels campaign_strategy),
         feedback_loop_note =
           get_default previous_results ''previous_campaign_summary''
             ''No past data used.''\<rparr>)))))))))))))))"

text \<open>The \<open>except\<close> clauses: a \<open>ValueError\<close> becomes a 500 with its text, any other
  exception a 500 naming its type. The assembled plan is a dictionary, a list and a
  string, so the validation against \<open>CampaignPlan\<close> passes.\<close>

definition to_http :: "py_exn \<Rightarrow> http_exception" where
  "to_http e =
     (if type_name e = ''ValueError'' then HTTPException 500 (Str e)
      else HTTPException 500 (InternalError (''An internal error occurred: '' @ type_name e)))"

definition run_pipeline ::
  "collaborators \<Rightarrow> ApiInput \<Rightarrow> step list \<times> (http_exception + CampaignPlan)" where
  "run_pipeline env input_data =
     (case pipeline_body env input_data [] of
        (trace, Inl e) \<Rightarrow> (trace, Inl (to_http e))
      | (trace, Inr final_plan) \<Rightarrow> (trace, Inr final_plan))"

section \<open>Sample collaborators and requests\<close>

text \<open>
  \<open>env_without_llm\<close> is the service started without an API key: every chain is \<open>None\<close> and
  the soft-degrading steps return their fallback values. \<open>sample_env\<close> is a service whose
  chains answer; \<open>sample_input\<close> is a request of the user with a campaign history.
\<close>

definition env_without_llm :: collaborators where
  "env_without_llm =
     \<lparr>extract_entities = (\<lambda>g. [(''error'', [])]),
      analyze_trends_via_search =
        (\<lambda>keywords l. \<lparr>timing_recommendation = ''No keywords provided.'', related_queries = []\<rparr>),
      search_local_context =
        (\<lambda>l b ev. \<lparr>local_events_summary = ''LLM chain unavailable for event summary.'',
                  competitor_types_summary = ''LLM chain unavailable for competitor summary.''\<rparr>),
      persona_chain = None, strategy_chain = None, creative_llm = None, visual_chain = None\<rparr>"

definition sample_persona :: AudiencePersona where
  "sample_persona =
     \<lparr>segment_name = ''Students'', description = ''College students near the cafe'',
      key_pain_points = [''price''], preferred_channels = [''Instagram''],
      motivation_triggers = [''discount'']\<rparr>"

definition sample_env :: collaborators where
  "sample_env =
     \<lparr>extract_entities = (\<lambda>g. [(''events'', [''diwali'']), (''misc_keywords'', [''sale''])]),
      analyze_trends_via_search =
        (\<lambda>keywords l. \<lparr>timing_recommendation = ''Start two weeks before Diwali.'',
                      related_queries = []\<rparr>),
      search_local_context =
        (\<lambda>l b ev. \<lparr>local_events_summary = ''Diwali fairs'',
                  competitor_types_summary = ''Chain cafes''\<rparr>),
      persona_chain = Some (\<lambda>x. Returns sample_persona),
      strategy_chain = Some (\<lambda>x. Returns
        \<lparr>recommended_channels = Some [''Facebook Local Ads'', ''Flyers & Posters''],
         budget_split = Some [(''Facebook Local Ads'', 4000), (''Flyers & Posters'', 2000)],
         campaign_angle = Some ''Festive Savings'', justification = Some ''Past results''\<rparr>),
      creative_llm = Some (\<lambda>x. Returns (map (\<lambda>(channel, key). (key, ''Copy for '' @ channel))
                                          (snd (snd x)))),
      visual_chain = Some (\<lambda>x. Returns (Some [''A lit cafe front'', ''Students sharing coffee'']))\<rparr>"

definition sample_input :: ApiInput where
  "sample_input =
     \<lparr>business_type = ''cafe'', location = ''Pune'', goal_description = ''Diwali discount sale'',
      budget_min = None, budget_max = None, budget_fixed = Some 6000,
      channel_preference = ''Both'', user_id = ''user123_with_history''\<rparr>"

text \<open>What a response shows of the plan: per channel its name, budget, copy and tracking tag.\<close>

definition plan_channels ::
  "step list \<times> (http_exception + CampaignPlan) \<Rightarrow> (string \<times> int \<times> string \<times> string) list option" where
  "plan_channels response =
     (case snd response of
        Inl e \<Rightarrow> None
      | Inr plan \<Rightarrow>
          Some (map (\<lambda>r. (channel_name r, allocated_budget r, suggested_copy (content r),
                           tracking_info_type r))
                  (channel_recommendations plan)))"

section \<open>Properties of the input parser\<close>

text \<open>
  C7. The claim names the fourth accepted value \<open>AIRecommend\<close>; the validator's list
  holds \<open>AI Recommend\<close>, with a space. A request whose \<open>channel_preference\<close> is
  \<open>AIRecommend\<close> is rejected.
\<close>

theorem parse_input_AIRecommend_rejected:
  "parse_input \<lparr>business_type = ''cafe'', location = ''Pune'',
      goal_description = ''Diwali discount sale'', budget_min = None, budget_max = None,
      budget_fixed = Some 6000, channel_preference = ''AIRecommend'',
      user_id = ''user123_with_history''\<rparr>
   = Inl (InputParsingFailed (ValidationError ''channel_preference''))"
  by (simp add: parse_input_def CampaignInputInternal_dict_def check_channel_preference_def
      allowed_def)

text \<open>
  C7, amended. On a request whose fields are present and typed as declared,
  \<open>parse_input\<close> fails, with the validation error of \<open>channel_preference\<close>, if and
  only if \<open>channel_preference\<close> is none of \<open>Online\<close>, \<open>Offline\<close>, \<open>Both\<close>,
  \<open>AI Recommend\<close>; with any of these four it returns a cleaned map.
\<close>

theorem parse_input_fails_iff:
  "(parse_input r = Inl (InputParsingFailed (ValidationError ''channel_preference''))
      \<longleftrightarrow> channel_preference r \<notin> {''Online'', ''Offline'', ''Both'', ''AI Recommend''})
   \<and> ((\<exists>d. parse_input r = Inr d)
      \<longleftrightarrow> channel_preference r \<in> {''Online'', ''Offline'', ''Both'', ''AI Recommend''})"
  by (cases "budget_fixed r"; cases "budget_min r"; cases "budget_max r")
     (simp_all add: parse_input_def CampaignInputInternal_dict_def check_channel_preference_def
        standardize_budget_def py_get_def opt_int_def allowed_def)

text \<open>
  C8. An accepted request is resolved to one budget figure by priority:
  \<open>budget_fixed\<close> when present; else the floor of \<open>(budget_min + budget_max) / 2\<close>
  when both are present; else \<open>budget_min\<close> when present; else 5000. The returned map
  holds none of the three raw budget keys.
\<close>

theorem parse_input_budget_priority:
  assumes "channel_preference r \<in> set allowed"
  shows "\<exists>d. parse_input r = Inr d
    \<and> map_of d ''budget'' = Some (PInt
         (case budget_fixed r of
            Some f \<Rightarrow> f
          | None \<Rightarrow>
             (case budget_min r of
                None \<Rightarrow> 5000
              | Some lo \<Rightarrow> (case budget_max r of None \<Rightarrow> lo | Some hi \<Rightarrow> (lo + hi) div 2))))
    \<and> ''budget_min'' \<notin> fst ` set d
    \<and> ''budget_max'' \<notin> fst ` set d
    \<and> ''budget_fixed'' \<notin> fst ` set d"
  using assms
  by (cases "budget_fixed r"; cases "budget_min r"; cases "budget_max r")
     (simp_all add: parse_input_def CampaignInputInternal_dict_def check_channel_preference_def
        standardize_budget_def py_get_def opt_int_def remove_redundant_def)

theorem parse_input_budget_priority_witness:
  "\<exists>d. parse_input \<lparr>business_type = ''cafe'', location = ''Pune'',
      goal_description = ''Diwali discount sale'', budget_min = Some 1000,
      budget_max = Some 3000, budget_fixed = None, channel_preference = ''Both'',
      user_id = ''user123_with_history''\<rparr> = Inr d
    \<and> map_of d ''budget'' = Some (PInt 2000)
    \<and> ''budget_min'' \<notin> fst ` set d
    \<and> ''budget_max'' \<notin> fst ` set d
    \<and> ''budget_fixed'' \<notin> fst ` set d"
  using parse_input_budget_priority [of "\<lparr>business_type = ''cafe'', location = ''Pune'',
      goal_description = ''Diwali discount sale'', budget_min = Some 1000,
      budget_max = Some 3000, budget_fixed = None, channel_preference = ''Both'',
      user_id = ''user123_with_history''\<rparr>"]
  by (simp add: allowed_def)

text \<open>
  C9. The model declares the budget fields as optional integers with no lower bound, and
  the parser adds none: a negative \<open>budget_fixed\<close> is accepted and becomes the budget.
\<close>

theorem parse_input_negative_budget:
  "parse_input \<lparr>business_type = ''cafe'', location = ''Pune'',
      goal_description = ''Diwali discount sale'', budget_min = None, budget_max = None,
      budget_fixed = Some (- 100), channel_preference = ''Both'',
      user_id = ''user123_with_history''\<rparr>
   = Inr [(''business_type'', PStr ''cafe''), (''location'', PStr ''Pune''),
          (''goal_description'', PStr ''Diwali discount sale''),
          (''channel_preference'', PStr ''Both''),
          (''user_id'', PStr ''user123_with_history''), (''budget'', PInt (- 100))]"
  by (simp add: parse_input_def CampaignInputInternal_dict_def check_channel_preference_def
      allowed_def standardize_budget_def py_get_def opt_int_def remove_redundant_def)

text \<open>
  C9, amended. For every accepted request the resolved \<open>budget\<close> is an integer, and it
  is non-negative whenever every raw budget field the request supplies is non-negative.
\<close>

theorem parse_input_budget_nonneg:
  assumes "parse_input r = Inr d"
    and "\<forall>x \<in> set_option (budget_fixed r) \<union> set_option (budget_min r)
            \<union> set_option (budget_max r). 0 \<le> x"
  shows "\<exists>b. map_of d ''budget'' = Some (PInt b) \<and> 0 \<le> b"
  using assms
  by (cases "budget_fixed r"; cases "budget_min r"; cases "budget_max r")
     (auto simp add: parse_input_def CampaignInputInternal_dict_def
        check_channel_preference_def standardize_budget_def py_get_def opt_int_def
        remove_redundant_def split: if_splits)

theorem parse_input_budget_nonneg_witness:
  "\<exists>b. map_of
      [(''business_type'', PStr ''cafe''), (''location'', PStr ''Pune''),
       (''goal_description'', PStr ''sale''), (''channel_preference'', PStr ''Online''),
       (''user_id'', PStr ''u1''), (''budget'', PInt 1500)] ''budget'' = Some (PInt b)
     \<and> 0 \<le> b"
proof (rule parse_input_budget_nonneg [of "\<lparr>business_type = ''cafe'', location = ''Pune'',
      goal_description = ''sale'', budget_min = Some 1000,
      budget_max = Some 2001, budget_fixed = None, channel_preference = ''Online'',
      user_id = ''u1''\<rparr>"])
  show "parse_input \<lparr>business_type = ''cafe'', location = ''Pune'',
      goal_description = ''sale'', budget_min = Some 1000,
      budget_max = Some 2001, budget_fixed = None, channel_preference = ''Online'',
      user_id = ''u1''\<rparr>
    = Inr [(''business_type'', PStr ''cafe''), (''location'', PStr ''Pune''),
       (''goal_description'', PStr ''sale''), (''channel_preference'', PStr ''Online''),
       (''user_id'', PStr ''u1''), (''budget'', PInt 1500)]"
    by (simp add: parse_input_def CampaignInputInternal_dict_def check_channel_preference_def
        allowed_def standardize_budget_def py_get_def opt_int_def remove_redundant_def)
qed simp

section \<open>Properties of the floating-point operations\<close>

text \<open>
  Rounding to the nearest double overshoots a non-negative exact value by at most half a
  unit in the last place; the lemmas below keep the cruder bound of one percent plus one
  hundredth, which is all the allocator's invariant needs.
\<close>

lemma rdiv_even_twice:
  assumes "0 \<le> n" "0 < d"
  shows "2 * (rdiv_even n d * d) \<le> 2 * n + d"
proof -
  have eq: "n = n div d * d + n mod d" by simp
  have r: "0 \<le> n mod d" "n mod d < d" using assms by simp_all
  have c1: "2 * (n div d * d) \<le> 2 * n + d"
    using eq r assms by (smt (verit))
  have c2: "d \<le> 2 * (n mod d) \<Longrightarrow> 2 * ((n div d + 1) * d) \<le> 2 * n + d"
  proof -
    assume h: "d \<le> 2 * (n mod d)"
    have "(n div d + 1) * d = n div d * d + d" by (simp add: algebra_simps)
    then show ?thesis using eq h by (smt (verit))
  qed
  show ?thesis
    unfolding rdiv_even_def Let_def using c1 c2 by (auto simp del: mult_2)
qed

lemma rdiv_even_nonneg:
  assumes "0 \<le> n" "0 < d"
  shows "0 \<le> rdiv_even n d"
proof -
  have "0 \<le> n div d" using assms by (simp add: pos_imp_zdiv_nonneg_iff)
  then show ?thesis unfolding rdiv_even_def Let_def by auto
qed

lemma rdiv_even_real:
  assumes "0 \<le> n" "0 < d"
  shows "real_of_int (rdiv_even n d) \<le> real_of_int n / real_of_int d + 1 / 2"
proof -
  have "real_of_int (2 * (rdiv_even n d * d)) \<le> real_of_int (2 * n + d)"
    using rdiv_even_twice [OF assms] by (simp only: of_int_le_iff)
  then have "2 * (real_of_int (rdiv_even n d) * real_of_int d) \<le> 2 * real_of_int n + real_of_int d"
    by simp
  moreover have "0 < real_of_int d" using assms by simp
  ultimately show ?thesis by (simp add: field_simps)
qed

lemma flog2_lower_int:
  assumes "0 < p" "0 < q"
  shows "if 0 \<le> flog2 p q then q * 2 ^ nat (flog2 p q) \<le> p
         else q \<le> p * 2 ^ nat (- flog2 p q)"
proof -
  define bp where "bp = bitlen p"
  define bq where "bq = bitlen q"
  have pb: "2 ^ nat (bp - 1) \<le> p" using bitlen_bounds [OF assms(1)] by (simp add: bp_def)
  have qb: "q < 2 ^ nat bq" using bitlen_bounds [OF assms(2)] by (simp add: bq_def)
  have bp1: "1 \<le> bp" using assms(1) by (simp add: bp_def bitlen_alt_def)
  have bq1: "1 \<le> bq" using assms(2) by (simp add: bq_def bitlen_alt_def)
  define C where "C \<longleftrightarrow>
      (if 0 \<le> bp - bq then q * 2 ^ nat (bp - bq) \<le> p else q \<le> p * 2 ^ nat (- (bp - bq)))"
  have fl: "flog2 p q = (if C then bp - bq else bp - bq - 1)"
    unfolding flog2_def Let_def bp_def bq_def C_def ..
  show ?thesis
  proof (cases C)
    case True
    then have "flog2 p q = bp - bq" by (simp add: fl)
    with True show ?thesis by (auto simp add: C_def split: if_splits)
  next
    case False
    then have e: "flog2 p q = bp - bq - 1" by (simp add: fl)
    show ?thesis
    proof (cases "0 \<le> bp - bq - 1")
      case True
      have "q * 2 ^ nat (bp - bq - 1) \<le> 2 ^ nat bq * 2 ^ nat (bp - bq - 1)"
        using qb by simp
      also have "\<dots> = (2::int) ^ (nat bq + nat (bp - bq - 1))" by (simp add: power_add)
      also have "nat bq + nat (bp - bq - 1) = nat (bp - 1)" using True bq1 by simp
      finally have "q * 2 ^ nat (bp - bq - 1) \<le> p" using pb by simp
      with True e show ?thesis by simp
    next
      case False
      have "q \<le> 2 ^ nat bq" using qb by simp
      also have "nat bq = nat (bp - 1) + nat (- (bp - bq - 1))" using False bp1 by simp
      also have "(2::int) ^ (nat (bp - 1) + nat (- (bp - bq - 1)))
            = 2 ^ nat (bp - 1) * 2 ^ nat (- (bp - bq - 1))" by (simp add: power_add)
      also have "\<dots> \<le> p * 2 ^ nat (- (bp - bq - 1))" using pb by simp
      finally show ?thesis using False e by simp
    qed
  qed
qed

lemma pow_nat_powr: "real_of_int (2 ^ nat k) = 2 powr real (nat k)"
  by (simp add: powr_realpow)

lemma flog2_lower:
  assumes "0 < p" "0 < q"
  shows "2 powr real_of_int (flog2 p q) \<le> real_of_int p / real_of_int q"
proof (cases "0 \<le> flog2 p q")
  case True
  then have "q * 2 ^ nat (flog2 p q) \<le> p" using flog2_lower_int [OF assms] by simp
  then have "real_of_int (q * 2 ^ nat (flog2 p q)) \<le> real_of_int p" by (simp only: of_int_le_iff)
  then have "real_of_int q * 2 powr real (nat (flog2 p q)) \<le> real_of_int p"
    by (simp add: powr_realpow)
  moreover have "real (nat (flog2 p q)) = real_of_int (flog2 p q)" using True by simp
  ultimately have "real_of_int q * 2 powr real_of_int (flog2 p q) \<le> real_of_int p" by simp
  then show ?thesis using assms by (simp add: field_simps)
next
  case False
  then have "q \<le> p * 2 ^ nat (- flog2 p q)" using flog2_lower_int [OF assms] by simp
  then have "real_of_int q \<le> real_of_int (p * 2 ^ nat (- flog2 p q))" by (simp only: of_int_le_iff)
  then have "real_of_int q \<le> real_of_int p * 2 powr real (nat (- flog2 p q))"
    by (simp add: powr_realpow)
  moreover have "real (nat (- flog2 p q)) = - real_of_int (flog2 p q)" using False by simp
  ultimately have "real_of_int q \<le> real_of_int p * 2 powr (- real_of_int (flog2 p q))" by simp
  then have "real_of_int q * 2 powr real_of_int (flog2 p q) \<le> real_of_int p"
    by (simp add: powr_minus field_simps)
  then show ?thesis using assms by (simp add: field_simps)
qed


lemma dval_pair: "dval (m, s) = real_of_int m * 2 powr real_of_int s"
  by (simp add: dval_def)

lemma round_pos_nonneg:
  assumes "0 < p" "0 < q"
  shows "0 \<le> fst (round_pos p q)"
  using assms by (simp add: round_pos_def Let_def rdiv_even_nonneg)

lemma round_pos_upper:
  assumes "0 < p" "0 < q"
  shows "dval (round_pos p q)
         \<le> real_of_int p / real_of_int q + 2 powr (real_of_int (max (flog2 p q) (- 1022)) - 53)"
proof -
  define s where "s = max (flog2 p q) (- 1022) - 52"
  have half: "2 powr real_of_int s / 2 = 2 powr (real_of_int (max (flog2 p q) (- 1022)) - 53)"
  proof -
    have "2 powr (real_of_int (max (flog2 p q) (- 1022)) - 53) = 2 powr (real_of_int s - 1)"
      by (simp add: s_def)
    also have "\<dots> = 2 powr real_of_int s / 2" by (simp add: powr_diff)
    finally show ?thesis by simp
  qed
  have pos: "(0::real) < 2 powr real_of_int s" by simp
  show ?thesis
  proof (cases "s \<le> 0")
    case True
    then have rp: "round_pos p q = (rdiv_even (p * 2 ^ nat (- s)) q, s)"
      by (simp add: round_pos_def Let_def s_def)
    have n0: "0 \<le> p * 2 ^ nat (- s)" using assms by simp
    have "real_of_int (rdiv_even (p * 2 ^ nat (- s)) q)
          \<le> real_of_int (p * 2 ^ nat (- s)) / real_of_int q + 1 / 2"
      by (rule rdiv_even_real [OF n0 assms(2)])
    also have "real_of_int (p * 2 ^ nat (- s)) = real_of_int p * 2 powr real (nat (- s))"
      by (simp add: powr_realpow)
    also have "real (nat (- s)) = - real_of_int s" using True by simp
    finally have "real_of_int (rdiv_even (p * 2 ^ nat (- s)) q) * 2 powr real_of_int s
          \<le> (real_of_int p * 2 powr (- real_of_int s) / real_of_int q + 1 / 2) * 2 powr real_of_int s"
      using pos by (simp only: mult_le_cancel_right_pos)
    also have "\<dots> = real_of_int p / real_of_int q * (2 powr (- real_of_int s) * 2 powr real_of_int s)
          + 2 powr real_of_int s / 2"
      by (simp add: algebra_simps)
    also have "2 powr (- real_of_int s) * 2 powr real_of_int s = (1::real)"
      by (simp add: powr_minus)
    finally show ?thesis using half by (simp add: rp dval_pair)
  next
    case False
    then have rp: "round_pos p q = (rdiv_even p (q * 2 ^ nat s), s)"
      by (simp add: round_pos_def Let_def s_def)
    have n0: "0 \<le> p" using assms by simp
    have d0: "0 < q * 2 ^ nat s" using assms by simp
    have "real_of_int (rdiv_even p (q * 2 ^ nat s))
          \<le> real_of_int p / real_of_int (q * 2 ^ nat s) + 1 / 2"
      by (rule rdiv_even_real [OF n0 d0])
    also have "real_of_int (q * 2 ^ nat s) = real_of_int q * 2 powr real (nat s)"
      by (simp add: powr_realpow)
    also have "real (nat s) = real_of_int s" using False by simp
    finally have "real_of_int (rdiv_even p (q * 2 ^ nat s)) * 2 powr real_of_int s
          \<le> (real_of_int p / (real_of_int q * 2 powr real_of_int s) + 1 / 2) * 2 powr real_of_int s"
      using pos by (simp only: mult_le_cancel_right_pos)
    also have "\<dots> = real_of_int p / real_of_int q + 2 powr real_of_int s / 2"
      using pos by (simp add: field_simps)
    finally show ?thesis using half by (simp add: rp dval_pair)
  qed
qed

lemma eps_small: "(2::real) powr (- 53) \<le> 1 / 100"
proof -
  have "(2::real) powr (- 53) = 1 / 2 ^ 53" by (simp add: powr_minus_divide powr_numeral)
  also have "\<dots> \<le> 1 / 100" by simp
  finally show ?thesis .
qed

lemma tiny_small: "(2::real) powr (- 1075) \<le> 1 / 100"
proof -
  have "(2::real) powr (- 1075) \<le> 2 powr (- 53)" by (rule powr_mono) simp_all
  then show ?thesis using eps_small by (rule order_trans)
qed

lemma round_pos_crude:
  assumes "0 < p" "0 < q"
  shows "dval (round_pos p q) \<le> real_of_int p / real_of_int q * (101 / 100) + 1 / 100"
proof -
  define x where "x = real_of_int p / real_of_int q"
  have x0: "0 < x" using assms by (simp add: x_def)
  have "2 powr (real_of_int (max (flog2 p q) (- 1022)) - 53) \<le> x * (1 / 100) + 1 / 100"
  proof (cases "- 1022 \<le> flog2 p q")
    case True
    then have "2 powr (real_of_int (max (flog2 p q) (- 1022)) - 53)
        = 2 powr real_of_int (flog2 p q) * 2 powr (- 53)"
      by (simp add: max_def powr_diff powr_minus_divide)
    also have "\<dots> \<le> x * 2 powr (- 53)"
      unfolding x_def by (rule mult_right_mono [OF flog2_lower [OF assms]]) simp
    also have "\<dots> \<le> x * (1 / 100)"
      using eps_small x0 by (simp only: mult_le_cancel_left_pos)
    finally show ?thesis by simp
  next
    case False
    then have "2 powr (real_of_int (max (flog2 p q) (- 1022)) - 53) = 2 powr (- 1075)"
      by (simp add: max_def)
    also have "\<dots> \<le> 1 / 100" by (rule tiny_small)
    finally show ?thesis using x0 by simp
  qed
  then show ?thesis using round_pos_upper [OF assms] by (simp add: x_def algebra_simps)
qed

lemma round_double_bounds:
  assumes "0 \<le> p" "0 < q"
  shows "0 \<le> fst (round_double p q)"
    and "dval (round_double p q) \<le> real_of_int p / real_of_int q * (101 / 100) + 1 / 100"
proof -
  show "0 \<le> fst (round_double p q)"
    using assms by (simp add: round_double_def round_pos_nonneg)
  show "dval (round_double p q) \<le> real_of_int p / real_of_int q * (101 / 100) + 1 / 100"
  proof (cases "p = 0")
    case True
    then show ?thesis by (simp add: round_double_def dval_pair)
  next
    case False
    then have "0 < p" using assms by simp
    then show ?thesis using round_pos_crude [OF _ assms(2)] by (simp add: round_double_def)
  qed
qed

lemma dval_nonneg_iff: "0 \<le> dval x \<longleftrightarrow> 0 \<le> fst x"
  by (simp add: dval_def zero_le_mult_iff)

lemma not_too_large:
  assumes "0 \<le> fst x" "dval x < 2 ^ 1024"
  shows "\<not> too_large x"
proof (cases x)
  case (Pair m s)
  have m0: "0 \<le> m" using assms(1) Pair by simp
  have dv: "real_of_int m * 2 powr real_of_int s < 2 ^ 1024" using assms(2) Pair by (simp add: dval_pair)
  show ?thesis
  proof (cases "0 \<le> s")
    case True
    have "real_of_int (m * 2 ^ nat s) = real_of_int m * 2 powr real (nat s)"
      by (simp add: powr_realpow)
    also have "real (nat s) = real_of_int s" using True by simp
    finally have e: "real_of_int (m * 2 ^ nat s) = real_of_int m * 2 powr real_of_int s" .
    have "real_of_int (m * 2 ^ nat s) < real_of_int (2 ^ 1024)"
      using dv by (simp only: e of_int_power of_int_numeral)
    then have "m * 2 ^ nat s < 2 ^ 1024" by (simp only: of_int_less_iff)
    then show ?thesis using True m0 Pair by (simp add: too_large_def)
  next
    case False
    have "real_of_int (2 ^ 1024 * 2 ^ nat (- s)) = 2 ^ 1024 * 2 powr real (nat (- s))"
      by (simp add: powr_realpow)
    also have "real (nat (- s)) = - real_of_int s" using False by simp
    finally have e: "real_of_int (2 ^ 1024 * 2 ^ nat (- s)) = 2 ^ 1024 * 2 powr (- real_of_int s)" .
    have "real_of_int m < 2 ^ 1024 * 2 powr (- real_of_int s)"
      using dv by (simp add: powr_minus field_simps)
    then have "real_of_int m < real_of_int (2 ^ 1024 * 2 ^ nat (- s))" using e by simp
    then have "m < 2 ^ 1024 * 2 ^ nat (- s)" by (simp only: of_int_less_iff)
    then show ?thesis using False m0 Pair by (simp add: too_large_def)
  qed
qed

lemma py_int_bounds:
  assumes "0 \<le> fst x" "py_int (Finite x) = Inr r"
  shows "0 \<le> r" and "real_of_int r \<le> dval x"
proof -
  obtain m s where x: "x = (m, s)" by (cases x)
  have m0: "0 \<le> m" using assms(1) x by simp
  show "0 \<le> r"
  proof (cases "0 \<le> s")
    case True
    then show ?thesis using assms(2) x m0 by auto
  next
    case False
    have "0 \<le> m div 2 ^ nat (- s)" using m0 by (simp add: pos_imp_zdiv_nonneg_iff)
    then show ?thesis using assms(2) x m0 False by (auto simp add: sgn_if)
  qed
  show "real_of_int r \<le> dval x"
  proof (cases "0 \<le> s")
    case True
    then have "r = m * 2 ^ nat s" using assms(2) x by auto
    then have "real_of_int r = real_of_int m * 2 powr real (nat s)" by (simp add: powr_realpow)
    also have "real (nat s) = real_of_int s" using True by simp
    finally show ?thesis by (simp add: x dval_pair)
  next
    case False
    then have r: "r = sgn m * (m div 2 ^ nat (- s))" using assms(2) x m0 by auto
    have "r \<le> m div 2 ^ nat (- s)"
    proof (cases "m = 0")
      case True
      then show ?thesis using r by simp
    next
      case False
      then show ?thesis using r m0 by (simp add: sgn_if)
    qed
    then have "real_of_int r \<le> real_of_int (m div 2 ^ nat (- s))" by (simp only: of_int_le_iff)
    also have "\<dots> \<le> real_of_int m / real_of_int (2 ^ nat (- s))"
      by (rule real_of_int_div4)
    also have "real_of_int (2 ^ nat (- s)) = 2 powr real (nat (- s))" by (simp add: powr_realpow)
    also have "real (nat (- s)) = - real_of_int s" using False by simp
    finally show ?thesis by (simp add: x dval_pair powr_minus field_simps)
  qed
qed


lemma float_of_int_bounds:
  assumes "0 \<le> n" "float_of_int n = Inr x"
  shows "0 \<le> fst x" and "dval x \<le> real_of_int n * (101 / 100) + 1 / 100"
proof -
  have x: "x = round_double n 1"
    using assms(2) by (simp add: float_of_int_def Let_def split: if_splits)
  show "0 \<le> fst x" unfolding x by (rule round_double_bounds(1) [OF assms(1)]) simp
  show "dval x \<le> real_of_int n * (101 / 100) + 1 / 100"
    using round_double_bounds(2) [OF assms(1), of 1] by (simp add: x)
qed

lemma float_of_int_total:
  assumes "0 \<le> n" "n < 2 ^ 1000"
  shows "\<exists>x. float_of_int n = Inr x"
proof -
  have "real_of_int n < real_of_int (2 ^ 1000)" using assms(2) by (simp only: of_int_less_iff)
  then have n: "real_of_int n < 2 ^ 1000" by simp
  have "dval (round_double n 1) \<le> real_of_int n * (101 / 100) + 1 / 100"
    using round_double_bounds(2) [OF assms(1), of 1] by simp
  also have "\<dots> < 2 ^ 1000 * (101 / 100) + 1 / 100" using n by simp
  also have "\<dots> < (2::real) ^ 1024" by simp
  finally have "\<not> too_large (round_double n 1)"
    by (rule not_too_large [OF round_double_bounds(1) [OF assms(1)], rotated]) simp
  then show ?thesis by (simp add: float_of_int_def Let_def)
qed

lemma true_div_bounds:
  assumes "0 \<le> a" "0 < b" "true_div a b = Inr x"
  shows "0 \<le> fst x" and "dval x \<le> real_of_int a / real_of_int b * (101 / 100) + 1 / 100"
proof -
  have x: "x = round_double a b"
    using assms(2,3) by (simp add: true_div_def Let_def split: if_splits)
  show "0 \<le> fst x" unfolding x by (rule round_double_bounds(1) [OF assms(1,2)])
  show "dval x \<le> real_of_int a / real_of_int b * (101 / 100) + 1 / 100"
    unfolding x by (rule round_double_bounds(2) [OF assms(1,2)])
qed

lemma true_div_total:
  assumes "0 \<le> a" "0 < b" "a \<le> 3 * b"
  shows "\<exists>x. true_div a b = Inr x \<and> 0 \<le> fst x \<and> dval x \<le> 4"
proof -
  have "real_of_int a \<le> real_of_int (3 * b)" using assms(3) by (simp only: of_int_le_iff)
  then have "real_of_int a / real_of_int b \<le> 3" using assms(2) by (simp add: field_simps)
  then have le: "dval (round_double a b) \<le> 4"
    using round_double_bounds(2) [OF assms(1,2)] by simp
  also have "\<dots> < (2::real) ^ 1024" by simp
  finally have "\<not> too_large (round_double a b)"
    by (rule not_too_large [OF round_double_bounds(1) [OF assms(1,2)]])
  then show ?thesis
    using assms(2) le round_double_bounds(1) [OF assms(1,2)] by (simp add: true_div_def Let_def)
qed

lemma float_mul_rounds:
  assumes "0 \<le> fst x" "0 \<le> fst y"
  shows "\<exists>z. float_mul x y = (if too_large z then Infinite else Finite z) \<and> 0 \<le> fst z
           \<and> dval z \<le> dval x * dval y * (101 / 100) + 1 / 100"
proof -
  obtain m1 s1 where x: "x = (m1, s1)" by (cases x)
  obtain m2 s2 where y: "y = (m2, s2)" by (cases y)
  have m: "0 \<le> m1 * m2" using assms x y by simp
  have prod: "dval x * dval y = real_of_int (m1 * m2) * 2 powr real_of_int (s1 + s2)"
    by (simp add: x y dval_pair powr_add)
  show ?thesis
  proof (cases "0 \<le> s1 + s2")
    case True
    define z where "z = round_double (m1 * m2 * 2 ^ nat (s1 + s2)) 1"
    have n0: "0 \<le> m1 * m2 * 2 ^ nat (s1 + s2)" using m by simp
    have "real_of_int (m1 * m2 * 2 ^ nat (s1 + s2)) = real_of_int (m1 * m2) * 2 powr real (nat (s1 + s2))"
      by (simp add: powr_realpow)
    also have "real (nat (s1 + s2)) = real_of_int (s1 + s2)" using True by simp
    finally have e: "real_of_int (m1 * m2 * 2 ^ nat (s1 + s2)) = dval x * dval y"
      using prod by simp
    have "dval z \<le> real_of_int (m1 * m2 * 2 ^ nat (s1 + s2)) / real_of_int 1 * (101 / 100) + 1 / 100"
      unfolding z_def by (rule round_double_bounds(2) [OF n0]) simp
    then have b: "dval z \<le> dval x * dval y * (101 / 100) + 1 / 100" using e by simp
    have z0: "0 \<le> fst z" unfolding z_def by (rule round_double_bounds(1) [OF n0]) simp
    have "float_mul x y = (if too_large z then Infinite else Finite z)"
      using True by (simp add: float_mul_def x y Let_def z_def)
    then show ?thesis using b z0 by blast
  next
    case False
    define z where "z = round_double (m1 * m2) (2 ^ nat (- (s1 + s2)))"
    define S where "S = s1 + s2"
    define M where "M = real_of_int (m1 * m2)"
    have d0: "(0::int) < 2 ^ nat (- (s1 + s2))" by simp
    have "real_of_int (2 ^ nat (- S)) = 2 powr real (nat (- S))"
      by (simp add: powr_realpow)
    also have "real (nat (- S)) = - real_of_int S" using False by (simp add: S_def)
    also have "2 powr (- real_of_int S) = 1 / 2 powr real_of_int S" by (rule powr_minus_divide)
    finally have "M / real_of_int (2 ^ nat (- S)) = M * 2 powr real_of_int S"
      by simp
    then have e: "real_of_int (m1 * m2) / real_of_int (2 ^ nat (- (s1 + s2))) = dval x * dval y"
      using prod by (simp add: S_def M_def)
    have "dval z \<le> real_of_int (m1 * m2) / real_of_int (2 ^ nat (- (s1 + s2))) * (101 / 100) + 1 / 100"
      unfolding z_def by (rule round_double_bounds(2) [OF m d0])
    then have b: "dval z \<le> dval x * dval y * (101 / 100) + 1 / 100" by (simp only: e)
    have z0: "0 \<le> fst z" unfolding z_def by (rule round_double_bounds(1) [OF m d0])
    have "float_mul x y = (if too_large z then Infinite else Finite z)"
      using False by (simp add: float_mul_def x y Let_def z_def)
    then show ?thesis using b z0 by blast
  qed
qed

lemma int_times_upper:
  assumes "0 \<le> n" "0 \<le> fst y" "int_times n y = Inr r"
  shows "0 \<le> r"
    and "real_of_int r \<le> (real_of_int n * (101 / 100) + 1 / 100) * dval y * (101 / 100) + 1 / 100"
proof -
  obtain x where fx: "float_of_int n = Inr x" and pr: "py_int (float_mul x y) = Inr r"
    using assms(3) by (auto simp add: int_times_def split: sum.splits)
  have x0: "0 \<le> fst x" and xb: "dval x \<le> real_of_int n * (101 / 100) + 1 / 100"
    using float_of_int_bounds [OF assms(1) fx] by simp_all
  obtain z where fm: "float_mul x y = (if too_large z then Infinite else Finite z)"
    and z0: "0 \<le> fst z" and zb: "dval z \<le> dval x * dval y * (101 / 100) + 1 / 100"
    using float_mul_rounds [OF x0 assms(2)] by blast
  have pz: "py_int (Finite z) = Inr r" using pr fm by (auto split: if_splits)
  show "0 \<le> r" by (rule py_int_bounds(1) [OF z0 pz])
  have y0: "0 \<le> dval y" using assms(2) by (simp add: dval_nonneg_iff)
  define A where "A = dval x * dval y"
  define B where "B = (real_of_int n * (101 / 100) + 1 / 100) * dval y"
  have "A \<le> B" unfolding A_def B_def by (rule mult_right_mono [OF xb y0])
  moreover have "dval z \<le> A * (101 / 100) + 1 / 100" using zb by (simp add: A_def)
  ultimately have "dval z \<le> B * (101 / 100) + 1 / 100" by linarith
  then have "dval z \<le> (real_of_int n * (101 / 100) + 1 / 100) * dval y * (101 / 100) + 1 / 100"
    by (simp add: B_def)
  then show "real_of_int r \<le> (real_of_int n * (101 / 100) + 1 / 100) * dval y * (101 / 100) + 1 / 100"
    using py_int_bounds(2) [OF z0 pz] by simp
qed

lemma int_times_total:
  assumes "0 \<le> n" "n < 2 ^ 1000" "0 \<le> fst y" "dval y \<le> 4"
  shows "\<exists>r. int_times n y = Inr r"
proof -
  obtain x where fx: "float_of_int n = Inr x" using float_of_int_total [OF assms(1,2)] by blast
  have x0: "0 \<le> fst x" and xb: "dval x \<le> real_of_int n * (101 / 100) + 1 / 100"
    using float_of_int_bounds [OF assms(1) fx] by simp_all
  obtain z where fm: "float_mul x y = (if too_large z then Infinite else Finite z)"
    and z0: "0 \<le> fst z" and zb: "dval z \<le> dval x * dval y * (101 / 100) + 1 / 100"
    using float_mul_rounds [OF x0 assms(3)] by blast
  have "real_of_int n < real_of_int (2 ^ 1000)" using assms(2) by (simp only: of_int_less_iff)
  then have n: "real_of_int n < 2 ^ 1000" by simp
  have dx0: "0 \<le> dval x" using x0 by (simp add: dval_nonneg_iff)
  define A where "A = dval x * dval y"
  have "A \<le> dval x * 4" unfolding A_def by (rule mult_left_mono [OF assms(4) dx0])
  moreover have "dval z \<le> A * (101 / 100) + 1 / 100" using zb by (simp add: A_def)
  ultimately have "dval z \<le> 5 * dval x + 1" using dx0 by linarith
  also have "\<dots> \<le> 6 * real_of_int n + 2" using xb assms(1) by linarith
  also have "\<dots> < 6 * 2 ^ 1000 + 2" using n by linarith
  also have "\<dots> < (2::real) ^ 1024" by simp
  finally have "\<not> too_large z" by (rule not_too_large [OF z0])
  then have "float_mul x y = Finite z" using fm by simp
  then show ?thesis
    by (cases z) (simp add: int_times_def fx)
qed

lemma dval_lit_0_3: "0 \<le> fst lit_0_3" "dval lit_0_3 \<le> 3 / 10"
  by (simp_all add: lit_0_3_def dval_pair powr_minus_divide powr_numeral)

lemma dval_lit_0_2: "0 \<le> fst lit_0_2" "dval lit_0_2 \<le> 4"
  by (simp_all add: lit_0_2_def dval_pair powr_minus_divide powr_numeral)

lemma int_times_0_3:
  assumes "0 \<le> v" "int_times v lit_0_3 = Inr r"
  shows "2 * r \<le> v"
proof -
  have v0: "0 \<le> real_of_int v" using assms(1) by simp
  have c0: "0 \<le> real_of_int v * (101 / 100) + 1 / 100" using v0 by simp
  have "real_of_int r \<le> (real_of_int v * (101 / 100) + 1 / 100) * dval lit_0_3 * (101 / 100) + 1 / 100"
    by (rule int_times_upper(2) [OF assms(1) dval_lit_0_3(1) assms(2)])
  also have "(real_of_int v * (101 / 100) + 1 / 100) * dval lit_0_3
        \<le> (real_of_int v * (101 / 100) + 1 / 100) * (3 / 10)"
    by (rule mult_left_mono [OF dval_lit_0_3(2) c0])
  finally have "real_of_int r \<le> (real_of_int v * (101 / 100) + 1 / 100) * (3 / 10) * (101 / 100) + 1 / 100"
    by simp
  then have "2 * real_of_int r < real_of_int v + 1" using v0 by (simp add: algebra_simps)
  then have "real_of_int (2 * r) < real_of_int (v + 1)" by simp
  then have "2 * r < v + 1" by (simp only: of_int_less_iff)
  then show ?thesis by simp
qed

section \<open>Properties of the budget allocator\<close>

lemma sum_update:
  "sum_list (map snd (AList.update k v d))
   = sum_list (map snd d) + v - (case map_of d k of None \<Rightarrow> 0 | Some w \<Rightarrow> (w::int))"
  by (induction d) auto

lemma sum_map_entry:
  "sum_list (map snd (AList.map_entry k f d))
   = sum_list (map snd d) + (case map_of d k of None \<Rightarrow> 0 | Some w \<Rightarrow> f w - (w::int))"
  by (induction d) auto

lemma length_update:
  "length (AList.update k v d) = (if k \<in> fst ` set d then length d else Suc (length d))"
proof -
  have "length (AList.update k v d) = length (map fst (AList.update k v d))" by simp
  also have "\<dots> = (if k \<in> fst ` set d then length d else Suc (length d))"
    by (simp only: update_keys) simp
  finally show ?thesis .
qed

lemma map_fst_map_entry: "map fst (AList.map_entry k f d) = map fst d"
  by (induction d) auto

lemma initial_allocations_inv:
  assumes "0 \<le> rem"
    and "distinct (map fst d)"
    and "\<forall>k v. map_of d k = Some v \<longrightarrow> base \<le> v \<and> v \<le> base + 1"
    and "sum_list (map snd d) \<le> int (length d) * base + min (int i) rem"
  shows "distinct (map fst (initial_allocations base rem i chans d))
    \<and> (\<forall>k v. map_of (initial_allocations base rem i chans d) k = Some v
          \<longrightarrow> base \<le> v \<and> v \<le> base + 1)
    \<and> sum_list (map snd (initial_allocations base rem i chans d))
        \<le> int (length (initial_allocations base rem i chans d)) * base
          + min (int (i + length chans)) rem
    \<and> fst ` set (initial_allocations base rem i chans d) = fst ` set d \<union> set chans"
  using assms(2-4)
proof (induction chans arbitrary: d i)
  case Nil
  then show ?case by simp
next
  case (Cons ch chans)
  define w where "w = base + (if int i < rem then 1 else 0)"
  define d' where "d' = AList.update ch w d"
  have dist: "distinct (map fst d')" unfolding d'_def by (rule distinct_update [OF Cons.prems(1)])
  have vals: "\<forall>k v. map_of d' k = Some v \<longrightarrow> base \<le> v \<and> v \<le> base + 1"
    using Cons.prems(2) by (auto simp add: d'_def update_conv' w_def)
  have mn: "min (int i) rem + (w - base) \<le> min (int (Suc i)) rem"
    by (auto simp add: w_def min_def)
  have sm: "sum_list (map snd d') \<le> int (length d') * base + min (int (Suc i)) rem"
  proof (cases "map_of d ch")
    case None
    then have nk: "ch \<notin> fst ` set d" by (simp add: map_of_eq_None_iff)
    have "sum_list (map snd d') = sum_list (map snd d) + w"
      by (simp add: d'_def sum_update None)
    moreover have "int (length d') * base = int (length d) * base + base"
      using nk by (simp add: d'_def length_update algebra_simps)
    ultimately show ?thesis using Cons.prems(3) mn by linarith
  next
    case (Some old)
    then have ik: "ch \<in> fst ` set d" by (metis map_of_eq_None_iff option.distinct(1))
    have ob: "base \<le> old" using Cons.prems(2) Some by blast
    have "sum_list (map snd d') = sum_list (map snd d) + w - old"
      by (simp add: d'_def sum_update Some)
    moreover have "int (length d') * base = int (length d) * base"
      using ik by (simp add: d'_def length_update)
    ultimately show ?thesis using Cons.prems(3) mn ob by linarith
  qed
  have keys: "fst ` set d' = insert ch (fst ` set d)" by (simp add: d'_def dom_update)
  have step: "initial_allocations base rem i (ch # chans) d
      = initial_allocations base rem (Suc i) chans d'"
    by (simp add: d'_def w_def)
  show ?case
    unfolding step using Cons.IH [OF dist vals sm] keys by auto
qed

lemma initial_allocations_props:
  assumes "0 < total_budget" "chans \<noteq> []"
  defines "n \<equiv> int (length chans)"
  defines "base \<equiv> total_budget div n"
  defines "d0 \<equiv> initial_allocations base (total_budget mod n) 0 chans []"
  shows "distinct (map fst d0)"
    and "\<forall>k v. map_of d0 k = Some v \<longrightarrow> base \<le> v \<and> v \<le> base + 1"
    and "sum_list (map snd d0) + (n - int (length d0)) * base \<le> total_budget"
    and "fst ` set d0 = set chans"
    and "0 \<le> base"
proof -
  have n0: "0 < n" using assms(2) by (simp add: n_def)
  have r0: "0 \<le> total_budget mod n" using n0 by simp
  have rn: "total_budget mod n < n" using n0 by simp
  have inv: "distinct (map fst d0)
    \<and> (\<forall>k v. map_of d0 k = Some v \<longrightarrow> base \<le> v \<and> v \<le> base + 1)
    \<and> sum_list (map snd d0) \<le> int (length d0) * base + min (int (0 + length chans)) (total_budget mod n)
    \<and> fst ` set d0 = fst ` set [] \<union> set chans"
    using initial_allocations_inv [OF r0, of "[]" base 0 chans] by (simp add: d0_def r0)
  show "distinct (map fst d0)" using inv by blast
  show "\<forall>k v. map_of d0 k = Some v \<longrightarrow> base \<le> v \<and> v \<le> base + 1" using inv by blast
  show "fst ` set d0 = set chans" using inv by simp
  show "0 \<le> base" using assms(1) n0 by (simp add: base_def pos_imp_zdiv_nonneg_iff)
  have "min (int (0 + length chans)) (total_budget mod n) = total_budget mod n"
    using rn by (simp add: n_def)
  then have s: "sum_list (map snd d0) \<le> int (length d0) * base + total_budget mod n"
    using inv by simp
  have t: "total_budget = n * base + total_budget mod n" by (simp add: base_def)
  have "(n - int (length d0)) * base = n * base - int (length d0) * base"
    by (simp add: algebra_simps)
  then show "sum_list (map snd d0) + (n - int (length d0)) * base \<le> total_budget"
    using s t by linarith
qed


lemma reduction_for_le:
  assumes "reduction_for adj b t c = Inr r"
    and "\<forall>k v. map_of adj k = Some v \<longrightarrow> 0 \<le> v"
  shows "\<exists>v. map_of adj c = Some v \<and> 2 * r \<le> v"
proof -
  obtain a p r1 r2 where a: "map_of adj c = Some a"
    and "true_div a t = Inr p" and "int_times b p = Inr r1"
    and r2: "int_times a lit_0_3 = Inr r2" and r: "r = min r1 r2"
    using assms(1) by (auto simp add: reduction_for_def split: option.splits sum.splits)
  have "0 \<le> a" using assms(2) a by blast
  then have "2 * r2 \<le> a" using r2 by (rule int_times_0_3)
  then have "2 * r \<le> a" using r by simp
  then show ?thesis using a by blast
qed

lemma collect_reductions_inv:
  assumes "collect_reductions adj high b t chans (reds, taken) = Inr (reds', taken')"
    and "\<forall>k v. map_of adj k = Some v \<longrightarrow> 0 \<le> v \<and> v \<le> base + 1"
    and "0 \<le> base"
    and "\<forall>c r. map_of reds c = Some r \<longrightarrow> c \<noteq> high \<and> (\<exists>v. map_of adj c = Some v \<and> 2 * r \<le> v)"
    and "distinct (map fst reds)"
    and "taken - sum_list (map snd reds) + int (length reds) * base \<le> K * base"
  shows "(\<forall>c r. map_of reds' c = Some r \<longrightarrow> c \<noteq> high \<and> (\<exists>v. map_of adj c = Some v \<and> 2 * r \<le> v))
    \<and> distinct (map fst reds')
    \<and> taken' - sum_list (map snd reds') + int (length reds') * base
        \<le> (K + int (length (filter (\<lambda>c. c \<noteq> high) chans))) * base
    \<and> fst ` set reds' = fst ` set reds \<union> {c \<in> set chans. c \<noteq> high}"
  using assms(1,4,5,6)
proof (induction chans arbitrary: reds taken K)
  case Nil
  then show ?case by simp
next
  case (Cons ch chans)
  show ?case
  proof (cases "ch = high")
    case True
    then have run: "collect_reductions adj high b t chans (reds, taken) = Inr (reds', taken')"
      using Cons.prems(1) by simp
    show ?thesis
      using Cons.IH [OF run Cons.prems(2) Cons.prems(3) Cons.prems(4)] True by auto
  next
    case False
    then obtain r where rf: "reduction_for adj b t ch = Inr r"
      and run: "collect_reductions adj high b t chans (AList.update ch r reds, taken + r)
                 = Inr (reds', taken')"
      using Cons.prems(1) by (auto split: sum.splits)
    have nonneg: "\<forall>k v. map_of adj k = Some v \<longrightarrow> 0 \<le> v" using assms(2) by blast
    obtain v where v: "map_of adj ch = Some v" and rv: "2 * r \<le> v"
      using reduction_for_le [OF rf nonneg] by blast
    have vb: "v \<le> base + 1" using assms(2) v by blast
    have rb: "r \<le> base" using rv vb assms(3) by linarith
    have R: "\<forall>c r'. map_of (AList.update ch r reds) c = Some r'
         \<longrightarrow> c \<noteq> high \<and> (\<exists>v. map_of adj c = Some v \<and> 2 * r' \<le> v)"
      using Cons.prems(2) False v rv by (auto simp add: update_conv')
    have D: "distinct (map fst (AList.update ch r reds))"
      by (rule distinct_update [OF Cons.prems(3)])
    have S: "taken + r - sum_list (map snd (AList.update ch r reds))
          + int (length (AList.update ch r reds)) * base \<le> (K + 1) * base"
    proof (cases "map_of reds ch")
      case None
      then have nk: "ch \<notin> fst ` set reds" by (simp add: map_of_eq_None_iff)
      have "sum_list (map snd (AList.update ch r reds)) = sum_list (map snd reds) + r"
        by (simp add: sum_update None)
      moreover have "int (length (AList.update ch r reds)) * base = int (length reds) * base + base"
        using nk by (simp add: length_update algebra_simps)
      moreover have "(K + 1) * base = K * base + base" by (simp add: algebra_simps)
      ultimately show ?thesis using Cons.prems(4) by linarith
    next
      case (Some old)
      then have ik: "ch \<in> fst ` set reds" by (metis map_of_eq_None_iff option.distinct(1))
      obtain v' where "map_of adj ch = Some v'" and "2 * old \<le> v'"
        using Cons.prems(2) Some by blast
      then have "2 * old \<le> v" using v by simp
      then have ob: "old \<le> base" using vb assms(3) by linarith
      have "sum_list (map snd (AList.update ch r reds)) = sum_list (map snd reds) + r - old"
        by (simp add: sum_update Some)
      moreover have "int (length (AList.update ch r reds)) * base = int (length reds) * base"
        using ik by (simp add: length_update)
      moreover have "(K + 1) * base = K * base + base" by (simp add: algebra_simps)
      ultimately show ?thesis using Cons.prems(4) ob by linarith
    qed
    have eq: "K + 1 + int (length (filter (\<lambda>c. c \<noteq> high) chans))
        = K + int (length (filter (\<lambda>c. c \<noteq> high) (ch # chans)))"
      using False by simp
    note IH = Cons.IH [OF run R D S]
    have c3: "taken' - sum_list (map snd reds') + int (length reds') * base
        \<le> (K + int (length (filter (\<lambda>c. c \<noteq> high) (ch # chans)))) * base"
      unfolding eq [symmetric] using IH by blast
    have c4: "fst ` set reds' = fst ` set reds \<union> {c \<in> set (ch # chans). c \<noteq> high}"
      using IH False by (auto simp add: dom_update)
    show ?thesis using IH c3 c4 by blast
  qed
qed

lemma apply_reductions_props:
  assumes "distinct (map fst reds)"
    and "\<forall>c r. map_of reds c = Some r \<longrightarrow> (\<exists>v. map_of d c = Some v \<and> r \<le> v)"
    and "\<forall>k v. map_of d k = Some v \<longrightarrow> 0 \<le> v"
  shows "map fst (apply_reductions reds d) = map fst d
    \<and> (\<forall>k v. map_of (apply_reductions reds d) k = Some v \<longrightarrow> 0 \<le> v)
    \<and> sum_list (map snd (apply_reductions reds d))
        = sum_list (map snd d) - sum_list (map snd reds)"
  using assms
proof (induction reds arbitrary: d)
  case Nil
  then show ?case by (simp add: apply_reductions_def)
next
  case (Cons cr reds)
  obtain c r where cr: "cr = (c, r)" by (cases cr)
  define d' where "d' = AList.map_entry c (\<lambda>v. v - r) d"
  have cn: "c \<notin> fst ` set reds" and D: "distinct (map fst reds)"
    using Cons.prems(1) cr by auto
  have "map_of (cr # reds) c = Some r" by (simp add: cr)
  then obtain v where v: "map_of d c = Some v" and rv: "r \<le> v"
    using Cons.prems(2) by blast
  have R: "\<forall>c' r'. map_of reds c' = Some r' \<longrightarrow> (\<exists>v. map_of d' c' = Some v \<and> r' \<le> v)"
  proof (intro allI impI)
    fix c' r'
    assume h: "map_of reds c' = Some r'"
    then have ne: "c' \<noteq> c" using cn by (metis map_of_eq_None_iff option.distinct(1))
    then have "map_of (cr # reds) c' = Some r'" using h cr by simp
    then obtain v' where "map_of d c' = Some v'" "r' \<le> v'" using Cons.prems(2) by blast
    then show "\<exists>v. map_of d' c' = Some v \<and> r' \<le> v"
      using ne by (simp add: d'_def map_of_map_entry)
  qed
  have V: "\<forall>k v. map_of d' k = Some v \<longrightarrow> 0 \<le> v"
    using Cons.prems(3) v rv by (auto simp add: d'_def map_of_map_entry split: if_splits)
  have step: "apply_reductions (cr # reds) d = apply_reductions reds d'"
    by (simp add: apply_reductions_def cr d'_def)
  have sm: "sum_list (map snd d') = sum_list (map snd d) - r"
    by (simp add: d'_def sum_map_entry v)
  have ks: "map fst d' = map fst d" by (simp add: d'_def map_fst_map_entry)
  show ?case
    unfolding step using Cons.IH [OF D R V] sm ks cr by simp
qed

lemma first_max_in: "first_max kv rest \<in> fst ` set (kv # rest)"
proof (induction rest arbitrary: kv)
  case Nil
  show ?case by (cases kv) simp
next
  case (Cons a rest)
  obtain k v where kv: "kv = (k, v)" by (cases kv)
  obtain k' v' where a: "a = (k', v')" by (cases a)
  show ?case
    using Cons.IH [of "(k', v')"] Cons.IH [of "(k, v)"] by (auto simp add: kv a)
qed

lemma final_adjust_props:
  assumes "\<forall>k v. map_of d k = Some v \<longrightarrow> 0 \<le> v"
    and "sum_list (map snd d) \<le> total_budget"
    and "d \<noteq> []"
  shows "map fst (final_adjust total_budget d) = map fst d
    \<and> (\<forall>k v. map_of (final_adjust total_budget d) k = Some v \<longrightarrow> 0 \<le> v)
    \<and> sum_list (map snd (final_adjust total_budget d)) = total_budget"
proof -
  obtain kv rest where d: "d = kv # rest" using assms(3) by (cases d) auto
  define diff where "diff = total_budget - sum_list (map snd d)"
  have d0: "0 \<le> diff" using assms(2) by (simp add: diff_def)
  show ?thesis
  proof (cases "diff = 0")
    case True
    then have "final_adjust total_budget d = d"
      by (simp add: final_adjust_def Let_def d diff_def)
    then show ?thesis using assms(1) True by (simp add: diff_def)
  next
    case False
    define target where "target = first_max kv rest"
    have fa: "final_adjust total_budget d = AList.map_entry target (\<lambda>v. v + diff) d"
      using False by (simp add: final_adjust_def Let_def d diff_def target_def)
    have "target \<in> fst ` set d" unfolding target_def d by (rule first_max_in)
    then obtain v where v: "map_of d target = Some v"
      by (metis map_of_eq_None_iff not_None_eq)
    have "sum_list (map snd (AList.map_entry target (\<lambda>v. v + diff) d)) = total_budget"
      by (simp add: sum_map_entry v diff_def)
    moreover have "\<forall>k v. map_of (AList.map_entry target (\<lambda>v. v + diff) d) k = Some v \<longrightarrow> 0 \<le> v"
      using assms(1) d0 v by (auto simp add: map_of_map_entry split: if_splits)
    ultimately show ?thesis by (simp add: fa map_fst_map_entry)
  qed
qed

lemma final_adjust_id:
  assumes "sum_list (map snd d) = total_budget"
  shows "final_adjust total_budget d = d"
  using assms by (cases d) (simp_all add: final_adjust_def Let_def)

lemma clamp_negative_id:
  assumes "\<forall>v \<in> snd ` set d. 0 \<le> v"
  shows "clamp_negative d = d"
proof -
  have "map (\<lambda>(channel, v). (channel, if v < 0 then 0 else v)) d = map (\<lambda>x. x) d"
    by (rule map_cong [OF refl]) (use assms in force)
  then show ?thesis by (simp add: clamp_negative_def)
qed

lemma values_of_distinct:
  assumes "distinct (map fst d)" "\<forall>k v. map_of d k = Some v \<longrightarrow> P v"
  shows "\<forall>v \<in> snd ` set d. P v"
  using assms by (metis (no_types, lifting) imageE map_of_is_SomeI prod.collapse)


lemma initial_allocations_sum_le:
  assumes "0 < total_budget" "chans \<noteq> []"
  defines "n \<equiv> int (length chans)"
  defines "base \<equiv> total_budget div n"
  defines "d0 \<equiv> initial_allocations base (total_budget mod n) 0 chans []"
  shows "int (length d0) \<le> n" and "sum_list (map snd d0) \<le> total_budget" and "d0 \<noteq> []"
proof -
  note props = initial_allocations_props [OF assms(1,2)]
  have D: "distinct (map fst d0)" using props(1) by (simp add: d0_def base_def n_def)
  have K: "fst ` set d0 = set chans" using props(4) by (simp add: d0_def base_def n_def)
  have B: "0 \<le> base" using props(5) by (simp add: base_def n_def)
  have S: "sum_list (map snd d0) + (n - int (length d0)) * base \<le> total_budget"
    using props(3) by (simp add: d0_def base_def n_def)
  have "length d0 = card (set (map fst d0))" using distinct_card [OF D] by simp
  also have "\<dots> = card (set chans)" using K by simp
  also have "\<dots> \<le> length chans" by (rule card_length)
  finally show L: "int (length d0) \<le> n" by (simp add: n_def)
  have "0 \<le> (n - int (length d0)) * base" using L B by simp
  then show "sum_list (map snd d0) \<le> total_budget" using S by linarith
  show "d0 \<noteq> []" using K assms(2) by auto
qed

lemma apply_boost_props:
  assumes "0 < total_budget" "chans \<noteq> []" "high \<in> set chans"
  defines "n \<equiv> int (length chans)"
  defines "base \<equiv> total_budget div n"
  defines "d0 \<equiv> initial_allocations base (total_budget mod n) 0 chans []"
  assumes run: "apply_boost total_budget chans high base d0 = Inr d1"
  shows "map fst d1 = map fst d0
    \<and> (\<forall>k v. map_of d1 k = Some v \<longrightarrow> 0 \<le> v)
    \<and> sum_list (map snd d1) \<le> total_budget"
proof -
  note props = initial_allocations_props [OF assms(1,2)]
  have D: "distinct (map fst d0)" using props(1) by (simp add: d0_def base_def n_def)
  have V: "\<forall>k v. map_of d0 k = Some v \<longrightarrow> base \<le> v \<and> v \<le> base + 1"
    using props(2) by (simp add: d0_def base_def n_def)
  have K: "fst ` set d0 = set chans" using props(4) by (simp add: d0_def base_def n_def)
  have B: "0 \<le> base" using props(5) by (simp add: base_def n_def)
  have S: "sum_list (map snd d0) + (n - int (length d0)) * base \<le> total_budget"
    using props(3) by (simp add: d0_def base_def n_def)
  have S0: "sum_list (map snd d0) \<le> total_budget"
    using initial_allocations_sum_le(2) [OF assms(1,2)] by (simp add: d0_def base_def n_def)
  have V0: "\<forall>k v. map_of d0 k = Some v \<longrightarrow> 0 \<le> v" using V B by force
  have same: "map fst d0 = map fst d0
    \<and> (\<forall>k v. map_of d0 k = Some v \<longrightarrow> 0 \<le> v)
    \<and> sum_list (map snd d0) \<le> total_budget"
    using V0 S0 by simp
  obtain a_high where ah: "map_of d0 high = Some a_high"
    using run by (auto simp add: apply_boost_def split: option.splits)
  obtain intended where "int_times a_high lit_0_2 = Inr intended"
    using run ah by (auto simp add: apply_boost_def split: sum.splits)
  define b where "b = min (base div 2) intended"
  define t where "t = total_budget - a_high"
  show ?thesis
  proof (cases "d1 = d0")
    case True
    then show ?thesis using same by simp
  next
    case False
    then obtain reds taken where cr: "collect_reductions d0 high b t chans ([], 0) = Inr (reds, taken)"
      and tk: "0 < taken"
      and d1: "d1 = apply_reductions reds (AList.map_entry high (\<lambda>v. v + taken) d0)"
      using run ah \<open>int_times a_high lit_0_2 = Inr intended\<close>
      by (auto simp add: apply_boost_def Let_def b_def t_def split: if_splits sum.splits)
    define dh where "dh = AList.map_entry high (\<lambda>v. v + taken) d0"
    have V1: "\<forall>k v. map_of d0 k = Some v \<longrightarrow> 0 \<le> v \<and> v \<le> base + 1" using V B by force
    have inv: "(\<forall>c r. map_of reds c = Some r \<longrightarrow> c \<noteq> high \<and> (\<exists>v. map_of d0 c = Some v \<and> 2 * r \<le> v))
      \<and> distinct (map fst reds)
      \<and> taken - sum_list (map snd reds) + int (length reds) * base
          \<le> (0 + int (length (filter (\<lambda>c. c \<noteq> high) chans))) * base
      \<and> fst ` set reds = fst ` set [] \<union> {c \<in> set chans. c \<noteq> high}"
      using collect_reductions_inv [OF cr V1 B, of 0] by simp
    have R: "\<forall>c r. map_of reds c = Some r \<longrightarrow> c \<noteq> high \<and> (\<exists>v. map_of d0 c = Some v \<and> 2 * r \<le> v)"
      using inv by blast
    have DR: "distinct (map fst reds)" using inv by blast
    have SR: "taken - sum_list (map snd reds) + int (length reds) * base
          \<le> int (length (filter (\<lambda>c. c \<noteq> high) chans)) * base"
      using inv by simp
    have KR: "fst ` set reds = set chans - {high}" using inv by auto
    have Rh: "\<forall>c r. map_of reds c = Some r \<longrightarrow> (\<exists>v. map_of dh c = Some v \<and> r \<le> v)"
    proof (intro allI impI)
      fix c r
      assume "map_of reds c = Some r"
      then obtain v where "c \<noteq> high" "map_of d0 c = Some v" "2 * r \<le> v" using R by blast
      moreover from this have "0 \<le> v" using V0 by blast
      ultimately show "\<exists>v. map_of dh c = Some v \<and> r \<le> v"
        by (auto simp add: dh_def map_of_map_entry)
    qed
    have Vh: "\<forall>k v. map_of dh k = Some v \<longrightarrow> 0 \<le> v"
      using V0 tk ah by (auto simp add: dh_def map_of_map_entry split: if_splits)
    have Sh: "sum_list (map snd dh) = sum_list (map snd d0) + taken"
      by (simp add: dh_def sum_map_entry ah)
    have Kh: "map fst dh = map fst d0" by (simp add: dh_def map_fst_map_entry)
    note ar = apply_reductions_props [OF DR Rh Vh]
    have lr: "length reds = card (set chans - {high})"
      using distinct_card [OF DR] KR by (simp add: image_set [symmetric] del: image_set)
    have l0: "length d0 = card (set chans)"
      using distinct_card [OF D] K by (simp add: image_set [symmetric] del: image_set)
    have "card (set chans - {high}) = card (set chans) - 1" using assms(3) by simp
    moreover have "0 < card (set chans)" using assms(3) by (auto simp add: card_gt_0_iff)
    ultimately have l1: "int (length reds) = int (length d0) - 1" using lr l0 by simp
    have "length (filter (\<lambda>c. c \<noteq> high) chans) < length chans"
      by (rule length_filter_less [OF assms(3)]) simp
    then have "int (length (filter (\<lambda>c. c \<noteq> high) chans)) - int (length reds) \<le> n - int (length d0)"
      using l1 by (simp add: n_def)
    then have "(int (length (filter (\<lambda>c. c \<noteq> high) chans)) - int (length reds)) * base
        \<le> (n - int (length d0)) * base"
      using B by (rule mult_right_mono)
    moreover have "(int (length (filter (\<lambda>c. c \<noteq> high) chans)) - int (length reds)) * base
        = int (length (filter (\<lambda>c. c \<noteq> high) chans)) * base - int (length reds) * base"
      by (simp add: algebra_simps)
    ultimately have "taken - sum_list (map snd reds) \<le> (n - int (length d0)) * base"
      using SR by linarith
    then have "sum_list (map snd d1) \<le> total_budget"
      using ar Sh S by (simp add: d1 dh_def [symmetric])
    then show ?thesis using ar Kh by (simp add: d1 dh_def [symmetric])
  qed
qed

lemma find_high_roi_in:
  assumes "find_high_roi prev chans = Some high"
  shows "high \<in> set chans"
proof -
  obtain P where "find P chans = Some high"
    using assms by (auto simp add: find_high_roi_def split: option.splits if_splits list.splits)
  then show ?thesis by (auto simp add: find_Some_iff)
qed

lemma allocate_budget_sound:
  assumes "chans \<noteq> []" "0 \<le> total_budget"
    and "allocate_budget total_budget chans prev = Inr split"
  shows "(\<forall>v \<in> set (map snd split). 0 \<le> v) \<and> sum_list (map snd split) = total_budget"
proof (cases "total_budget = 0")
  case True
  then have "split = []" using assms(3) by (simp add: allocate_budget_def Let_def)
  then show ?thesis using True by simp
next
  case False
  then have T: "0 < total_budget" using assms(2) by simp
  define n where "n = int (length chans)"
  define base where "base = total_budget div n"
  define d0 where "d0 = initial_allocations base (total_budget mod n) 0 chans []"
  have n0: "n \<noteq> 0" using assms(1) by (simp add: n_def)
  note props = initial_allocations_props [OF T assms(1)]
  have D: "distinct (map fst d0)" using props(1) by (simp add: d0_def base_def n_def)
  have V: "\<forall>k v. map_of d0 k = Some v \<longrightarrow> base \<le> v \<and> v \<le> base + 1"
    using props(2) by (simp add: d0_def base_def n_def)
  have B: "0 \<le> base" using props(5) by (simp add: base_def n_def)
  have V0: "\<forall>k v. map_of d0 k = Some v \<longrightarrow> 0 \<le> v" using V B by force
  have S0: "sum_list (map snd d0) \<le> total_budget"
    using initial_allocations_sum_le(2) [OF T assms(1)] by (simp add: d0_def base_def n_def)
  have N0: "d0 \<noteq> []"
    using initial_allocations_sum_le(3) [OF T assms(1)] by (simp add: d0_def base_def n_def)
  define X where "X = (case find_high_roi prev chans of
      None \<Rightarrow> Inr d0
    | Some high \<Rightarrow>
        if high \<noteq> [] \<and> high \<in> set (map fst d0) \<and> 1 < n
        then apply_boost total_budget chans high base d0 else Inr d0)"
  have eq: "allocate_budget total_budget chans prev =
      (case X of Inl e \<Rightarrow> Inl e
       | Inr boosted \<Rightarrow> Inr (final_adjust total_budget
            (clamp_negative (final_adjust total_budget boosted))))"
  proof -
    have c: "(int (length chans) = 0 \<or> total_budget \<le> 0) = False"
      using T assms(1) by simp
    show ?thesis
      unfolding allocate_budget_def Let_def X_def d0_def base_def n_def
      by (simp only: c if_False)
  qed
  obtain boosted where xb: "X = Inr boosted"
    and sp: "split = final_adjust total_budget (clamp_negative (final_adjust total_budget boosted))"
    using assms(3) unfolding eq by (cases X) auto
  have bo: "boosted = d0 \<or> (\<exists>high. high \<in> set chans \<and> apply_boost total_budget chans high base d0 = Inr boosted)"
  proof (cases "find_high_roi prev chans")
    case None
    then show ?thesis using xb by (simp add: X_def)
  next
    case (Some high)
    then have "high \<in> set chans" by (rule find_high_roi_in)
    then show ?thesis using xb Some by (auto simp add: X_def split: if_splits)
  qed
  have bp: "map fst boosted = map fst d0
    \<and> (\<forall>k v. map_of boosted k = Some v \<longrightarrow> 0 \<le> v)
    \<and> sum_list (map snd boosted) \<le> total_budget"
  proof (cases "boosted = d0")
    case True
    then show ?thesis using V0 S0 by simp
  next
    case False
    then obtain high where h: "high \<in> set chans"
      and run: "apply_boost total_budget chans high base d0 = Inr boosted"
      using bo by blast
    have run': "apply_boost total_budget chans high (total_budget div int (length chans))
        (initial_allocations (total_budget div int (length chans))
           (total_budget mod int (length chans)) 0 chans []) = Inr boosted"
      using run unfolding d0_def base_def n_def .
    show ?thesis
      unfolding d0_def base_def n_def by (rule apply_boost_props [OF T assms(1) h run'])
  qed
  have bn: "boosted \<noteq> []" using bp N0 by (metis map_is_Nil_conv)
  define f1 where "f1 = final_adjust total_budget boosted"
  have fp: "map fst f1 = map fst boosted
    \<and> (\<forall>k v. map_of f1 k = Some v \<longrightarrow> 0 \<le> v)
    \<and> sum_list (map snd f1) = total_budget"
    unfolding f1_def using bp bn by (intro final_adjust_props) blast+
  have Df: "distinct (map fst f1)" using fp bp D by simp
  have vals: "\<forall>v \<in> snd ` set f1. 0 \<le> v"
    by (rule values_of_distinct [OF Df]) (use fp in blast)
  have "clamp_negative f1 = f1" by (rule clamp_negative_id [OF vals])
  moreover have "final_adjust total_budget f1 = f1" by (rule final_adjust_id) (use fp in blast)
  ultimately have "split = f1" by (simp add: sp f1_def [symmetric])
  then show ?thesis using vals fp by simp
qed

lemma reduction_for_total:
  assumes "map_of adj c = Some a" "0 \<le> a" "a < 2 ^ 1000" "0 < t" "a \<le> 3 * t"
    and "0 \<le> b" "b < 2 ^ 1000"
  shows "\<exists>r. reduction_for adj b t c = Inr r"
proof -
  obtain p where p: "true_div a t = Inr p" and p0: "0 \<le> fst p" and p4: "dval p \<le> 4"
    using true_div_total [OF assms(2,4,5)] by blast
  obtain r1 where r1: "int_times b p = Inr r1"
    using int_times_total [OF assms(6,7) p0 p4] by blast
  have "dval lit_0_3 \<le> 4" using dval_lit_0_3(2) by linarith
  then obtain r2 where r2: "int_times a lit_0_3 = Inr r2"
    using int_times_total [OF assms(2,3) dval_lit_0_3(1)] by blast
  show ?thesis by (simp add: reduction_for_def assms(1) p r1 r2)
qed

lemma collect_reductions_total:
  assumes "\<forall>c \<in> set chans. c \<noteq> high \<longrightarrow> (\<exists>r. reduction_for adj b t c = Inr r)"
  shows "\<exists>res. collect_reductions adj high b t chans acc = Inr res"
  using assms
proof (induction chans arbitrary: acc)
  case Nil
  then show ?case by simp
next
  case (Cons ch chans)
  obtain reds taken where acc: "acc = (reds, taken)" by (cases acc)
  have rest: "\<forall>c \<in> set chans. c \<noteq> high \<longrightarrow> (\<exists>r. reduction_for adj b t c = Inr r)"
    using Cons.prems by simp
  show ?case
  proof (cases "ch = high")
    case True
    then show ?thesis using Cons.IH [OF rest, of "(reds, taken)"] by (simp add: acc)
  next
    case False
    then obtain r where r: "reduction_for adj b t ch = Inr r" using Cons.prems by auto
    show ?thesis
      using Cons.IH [OF rest, of "(AList.update ch r reds, taken + r)"] False
      by (simp add: acc r)
  qed
qed

lemma apply_boost_total:
  assumes "0 < total_budget" "total_budget < 2 ^ 1000" "1 < length chans" "high \<in> set chans"
  defines "n \<equiv> int (length chans)"
  defines "base \<equiv> total_budget div n"
  defines "d0 \<equiv> initial_allocations base (total_budget mod n) 0 chans []"
  shows "\<exists>d1. apply_boost total_budget chans high base d0 = Inr d1"
proof -
  have ne: "chans \<noteq> []" using assms(3) by auto
  note props = initial_allocations_props [OF assms(1) ne]
  have V: "\<forall>k v. map_of d0 k = Some v \<longrightarrow> base \<le> v \<and> v \<le> base + 1"
    using props(2) by (simp add: d0_def base_def n_def)
  have K: "fst ` set d0 = set chans" using props(4) by (simp add: d0_def base_def n_def)
  have B: "0 \<le> base" using props(5) by (simp add: base_def n_def)
  have n2: "2 \<le> n" using assms(3) by (simp add: n_def)
  have "total_budget = n * base + total_budget mod n" by (simp add: base_def)
  moreover have "0 \<le> total_budget mod n" using n2 by simp
  moreover have "2 * base \<le> n * base" using n2 B by (simp add: mult_right_mono)
  ultimately have tb: "2 * base \<le> total_budget" by linarith
  have "(2::int) ^ 1000 = 2 * 2 ^ 999" "(0::int) < 2 ^ 999" by simp_all
  then have bsmall: "base + 1 < 2 ^ 1000" using tb assms(2) B by linarith
  have lookup: "\<And>c. c \<in> set chans \<Longrightarrow> \<exists>a. map_of d0 c = Some a \<and> base \<le> a \<and> a \<le> base + 1"
  proof -
    fix c assume "c \<in> set chans"
    then have "c \<in> fst ` set d0" using K by simp
    then obtain a where "map_of d0 c = Some a" by (metis map_of_eq_None_iff not_None_eq)
    then show "\<exists>a. map_of d0 c = Some a \<and> base \<le> a \<and> a \<le> base + 1" using V by blast
  qed
  obtain a_high where ah: "map_of d0 high = Some a_high"
    and al: "base \<le> a_high" and au: "a_high \<le> base + 1"
    using lookup [OF assms(4)] by blast
  have ah0: "0 \<le> a_high" using al B by simp
  have ahs: "a_high < 2 ^ 1000" using au bsmall by simp
  obtain intended where it: "int_times a_high lit_0_2 = Inr intended"
    using int_times_total [OF ah0 ahs dval_lit_0_2] by blast
  have i0: "0 \<le> intended" by (rule int_times_upper(1) [OF ah0 dval_lit_0_2(1) it])
  define b where "b = min (base div 2) intended"
  define t where "t = total_budget - a_high"
  have b0: "0 \<le> b" using i0 B by (simp add: b_def pos_imp_zdiv_nonneg_iff)
  have "base div 2 \<le> base" using B by simp
  then have bs: "b < 2 ^ 1000" using bsmall by (simp add: b_def)
  show ?thesis
  proof (cases "0 < t")
    case False
    then show ?thesis by (simp add: apply_boost_def ah it Let_def t_def)
  next
    case True
    have "\<forall>c \<in> set chans. c \<noteq> high \<longrightarrow> (\<exists>r. reduction_for d0 b t c = Inr r)"
    proof (intro ballI impI)
      fix c assume "c \<in> set chans"
      then obtain a where a: "map_of d0 c = Some a" and "base \<le> a" and a1: "a \<le> base + 1"
        using lookup by blast
      have a0: "0 \<le> a" using \<open>base \<le> a\<close> B by simp
      have as: "a < 2 ^ 1000" using a1 bsmall by simp
      have "a \<le> 3 * t" using a1 au tb True by (simp add: t_def)
      then show "\<exists>r. reduction_for d0 b t c = Inr r"
        by (rule reduction_for_total [OF a a0 as True _ b0 bs])
    qed
    then obtain res where "collect_reductions d0 high b t chans ([], 0) = Inr res"
      using collect_reductions_total by blast
    then show ?thesis
      by (cases res) (simp add: apply_boost_def ah it Let_def t_def [symmetric] b_def [symmetric] True)
  qed
qed

lemma allocate_budget_total:
  assumes "0 \<le> total_budget" "total_budget < 2 ^ 1000"
  shows "\<exists>split. allocate_budget total_budget chans prev = Inr split"
proof (cases "chans = [] \<or> total_budget = 0")
  case True
  then show ?thesis by (auto simp add: allocate_budget_def Let_def)
next
  case False
  then have T: "0 < total_budget" and ne: "chans \<noteq> []" using assms(1) by simp_all
  define n where "n = int (length chans)"
  define base where "base = total_budget div n"
  define d0 where "d0 = initial_allocations base (total_budget mod n) 0 chans []"
  define X where "X = (case find_high_roi prev chans of
      None \<Rightarrow> Inr d0
    | Some high \<Rightarrow>
        if high \<noteq> [] \<and> high \<in> set (map fst d0) \<and> 1 < n
        then apply_boost total_budget chans high base d0 else Inr d0)"
  have eq: "allocate_budget total_budget chans prev =
      (case X of Inl e \<Rightarrow> Inl e
       | Inr boosted \<Rightarrow> Inr (final_adjust total_budget
            (clamp_negative (final_adjust total_budget boosted))))"
  proof -
    have c: "(int (length chans) = 0 \<or> total_budget \<le> 0) = False"
      using T ne by simp
    show ?thesis
      unfolding allocate_budget_def Let_def X_def d0_def base_def n_def
      by (simp only: c if_False)
  qed
  have "\<exists>boosted. X = Inr boosted"
  proof (cases "find_high_roi prev chans")
    case None
    then show ?thesis by (simp add: X_def)
  next
    case (Some high)
    show ?thesis
    proof (cases "high \<noteq> [] \<and> high \<in> set (map fst d0) \<and> 1 < n")
      case False
      then show ?thesis using Some by (auto simp add: X_def)
    next
      case True
      have h: "high \<in> set chans" using Some by (rule find_high_roi_in)
      have l: "1 < length chans" using True by (simp add: n_def)
      have "\<exists>d1. apply_boost total_budget chans high base d0 = Inr d1"
        unfolding d0_def base_def n_def by (rule apply_boost_total [OF T assms(2) l h])
      then show ?thesis using Some True by (simp add: X_def)
    qed
  qed
  then show ?thesis unfolding eq by auto
qed

lemma float_of_int_error: "float_of_int n = Inl e \<Longrightarrow> e = OverflowError"
  by (simp add: float_of_int_def Let_def split: if_splits)

lemma true_div_error: "b \<noteq> 0 \<Longrightarrow> true_div a b = Inl e \<Longrightarrow> e = OverflowError"
  by (simp add: true_div_def Let_def split: if_splits)

lemma py_int_error: "py_int x = Inl e \<Longrightarrow> e = OverflowError"
  by (cases x rule: py_int.cases) simp_all

lemma int_times_error: "int_times n y = Inl e \<Longrightarrow> e = OverflowError"
  by (auto simp add: int_times_def split: sum.splits dest: float_of_int_error py_int_error)

lemma reduction_for_error:
  assumes "reduction_for adj b t c = Inl e" "c \<in> fst ` set adj" "t \<noteq> 0"
  shows "e = OverflowError"
proof -
  obtain a where a: "map_of adj c = Some a"
    using assms(2) by (metis map_of_eq_None_iff not_None_eq)
  show ?thesis
    using assms(1) true_div_error [OF assms(3)] int_times_error
    by (auto simp add: reduction_for_def a split: sum.splits)
qed

lemma collect_reductions_error:
  assumes "collect_reductions adj high b t chans acc = Inl e"
    and "set chans \<subseteq> fst ` set adj" "t \<noteq> 0"
  shows "e = OverflowError"
  using assms(1,2)
proof (induction chans arbitrary: acc)
  case Nil
  then show ?case by simp
next
  case (Cons ch chans)
  obtain reds taken where acc: "acc = (reds, taken)" by (cases acc)
  have sub: "set chans \<subseteq> fst ` set adj" and ch: "ch \<in> fst ` set adj"
    using Cons.prems(2) by simp_all
  show ?case
  proof (cases "ch = high")
    case True
    then show ?thesis using Cons.IH [OF _ sub] Cons.prems(1) by (simp add: acc)
  next
    case False
    show ?thesis
    proof (cases "reduction_for adj b t ch")
      case (Inl e')
      then have "e' = OverflowError" using ch assms(3) by (rule reduction_for_error)
      then show ?thesis using Cons.prems(1) False Inl by (simp add: acc)
    next
      case (Inr r)
      then show ?thesis using Cons.IH [OF _ sub] Cons.prems(1) False by (simp add: acc)
    qed
  qed
qed

lemma apply_boost_error:
  assumes "apply_boost total_budget chans high base d = Inl e"
    and "high \<in> fst ` set d" "set chans \<subseteq> fst ` set d"
  shows "e = OverflowError"
proof -
  obtain a where a: "map_of d high = Some a"
    using assms(2) by (metis map_of_eq_None_iff not_None_eq)
  show ?thesis
  proof (cases "int_times a lit_0_2")
    case (Inl e')
    then have "e' = OverflowError" by (rule int_times_error)
    then show ?thesis using assms(1) Inl by (simp add: apply_boost_def a)
  next
    case (Inr intended)
    define b where "b = min (base div 2) intended"
    define t where "t = total_budget - a"
    show ?thesis
    proof (cases "0 < t")
      case False
      then show ?thesis using assms(1) by (simp add: apply_boost_def a Inr Let_def t_def)
    next
      case True
      then have t0: "t \<noteq> 0" by simp
      show ?thesis
      proof (cases "collect_reductions d high b t chans ([], 0)")
        case (Inl e')
        then have "e' = OverflowError" using assms(3) t0 by (rule collect_reductions_error)
        then show ?thesis
          using assms(1) Inl True
          by (simp add: apply_boost_def a Inr Let_def t_def [symmetric] b_def [symmetric])
      next
        case (Inr res)
        then show ?thesis
          using assms(1) True \<open>int_times a lit_0_2 = Inr intended\<close>
          by (cases res)
            (simp add: apply_boost_def a Let_def t_def [symmetric] b_def [symmetric] split: if_splits)
      qed
    qed
  qed
qed

lemma initial_allocations_keys:
  "fst ` set (initial_allocations base rem i chans d) = fst ` set d \<union> set chans"
  by (induction chans arbitrary: d i) (auto simp add: dom_update)

lemma allocate_budget_error:
  assumes "allocate_budget total_budget chans prev = Inl e"
  shows "e = OverflowError"
proof (cases "int (length chans) = 0 \<or> total_budget \<le> 0")
  case True
  then show ?thesis using assms by (simp add: allocate_budget_def Let_def)
next
  case False
  define n where "n = int (length chans)"
  define base where "base = total_budget div n"
  define d0 where "d0 = initial_allocations base (total_budget mod n) 0 chans []"
  define X where "X = (case find_high_roi prev chans of
      None \<Rightarrow> Inr d0
    | Some high \<Rightarrow>
        if high \<noteq> [] \<and> high \<in> set (map fst d0) \<and> 1 < n
        then apply_boost total_budget chans high base d0 else Inr d0)"
  have eq: "allocate_budget total_budget chans prev =
      (case X of Inl e \<Rightarrow> Inl e
       | Inr boosted \<Rightarrow> Inr (final_adjust total_budget
            (clamp_negative (final_adjust total_budget boosted))))"
  proof -
    have c: "(int (length chans) = 0 \<or> total_budget \<le> 0) = False"
      using False by simp
    show ?thesis
      unfolding allocate_budget_def Let_def X_def d0_def base_def n_def
      by (simp only: c if_False)
  qed
  have xe: "X = Inl e" using assms unfolding eq by (cases X) auto
  have K: "fst ` set d0 = set chans" by (simp add: d0_def initial_allocations_keys)
  obtain high where "high \<in> fst ` set d0"
    and "apply_boost total_budget chans high base d0 = Inl e"
    using xe by (auto simp add: X_def split: option.splits if_splits)
  then show ?thesis using K by (intro apply_boost_error [of total_budget chans high base d0]) auto
qed

text \<open>
  C1. The boost is computed in floating point, and converting an integer of magnitude
  \<open>2 ^ 1024\<close> or more to a float raises \<open>OverflowError\<close>: with two channels, a
  budget of \<open>2 ^ 1025\<close> and a history that names the first channel, the call raises
  at \<open>int(adjusted_allocations[high_roi_channel] * 0.2)\<close> and returns no split.
\<close>

theorem allocate_budget_overflow:
  "allocate_budget (2 ^ 1025) [''A'', ''B'']
     [(''previous_campaign_summary'', ''A had the highest Conversion Rate'')]
   = Inl OverflowError"
  by code_simp

text \<open>
  C1, amended. For a channel list that is not empty (duplicates allowed) and a total budget
  that is not negative: below \<open>2 ^ 1000\<close> the call returns a split; whenever it returns
  a split, every value is at least 0 and the values sum exactly to the total budget; and
  the only exception it can raise is \<open>OverflowError\<close>.
\<close>

theorem allocate_budget_invariant:
  assumes "channels \<noteq> []" "0 \<le> total_budget"
  shows "(total_budget < 2 ^ 1000 \<longrightarrow>
           (\<exists>split. allocate_budget total_budget channels prev = Inr split))
    \<and> (\<forall>split. allocate_budget total_budget channels prev = Inr split
          \<longrightarrow> (\<forall>v \<in> set (map snd split). 0 \<le> v) \<and> sum_list (map snd split) = total_budget)
    \<and> (\<forall>e. allocate_budget total_budget channels prev = Inl e
          \<longrightarrow> e = OverflowError)"
proof (intro conjI allI impI)
  assume "total_budget < 2 ^ 1000"
  with assms(2)
  show "\<exists>split. allocate_budget total_budget channels prev = Inr split"
    by (rule allocate_budget_total)
next
  fix split
  assume "allocate_budget total_budget channels prev = Inr split"
  with assms have r: "(\<forall>v \<in> set (map snd split). 0 \<le> v) \<and> sum_list (map snd split) = total_budget"
    by (rule allocate_budget_sound)
  from r show "\<forall>v \<in> set (map snd split). 0 \<le> v" ..
  from r show "sum_list (map snd split) = total_budget" ..
next
  fix e
  assume "allocate_budget total_budget channels prev = Inl e"
  then show "e = OverflowError" by (rule allocate_budget_error)
qed

theorem allocate_budget_invariant_witness:
  "\<exists>split. allocate_budget 1001 [''A'', ''A'', ''B'', ''B'', ''C'']
       [(''previous_campaign_summary'', ''C had the highest Conversion Rate'')] = Inr split
     \<and> list_all (\<lambda>v. 0 \<le> v) (map snd split) \<and> sum_list (map snd split) = 1001"
proof -
  have a: "[''A'', ''A'', ''B'', ''B'', ''C''] \<noteq> []" by simp
  have b: "(0::int) \<le> 1001" by simp
  have c: "(1001::int) < 2 ^ 1000" by simp
  note th = allocate_budget_invariant [OF a b,
      of "[(''previous_campaign_summary'', ''C had the highest Conversion Rate'')]"]
  from th c obtain split where s: "allocate_budget 1001 [''A'', ''A'', ''B'', ''B'', ''C'']
       [(''previous_campaign_summary'', ''C had the highest Conversion Rate'')] = Inr split"
    by blast
  with th have "(\<forall>v \<in> set (map snd split). 0 \<le> v) \<and> sum_list (map snd split) = 1001"
    by blast
  with s show ?thesis by (auto simp add: list_all_iff)
qed

text \<open>
  C6. The guard tests for \<open>highest Conversion Rate\<close>, the split is on
  \<open> had the highest Conversion Rate\<close>. A summary that has the first and not the second
  is not split at all, so the last word of the whole summary becomes the candidate: here
  the phrase of the claim is absent, and still \<open>Pamphlets\<close> is identified and boosted
  from 500 to 600.
\<close>

theorem find_high_roi_without_phrase:
  "\<not> py_in ''had the highest Conversion Rate'' ''The highest Conversion Rate was for Pamphlets''
   \<and> find_high_roi
        [(''previous_campaign_summary'', ''The highest Conversion Rate was for Pamphlets'')]
        [''Pamphlets'', ''Facebook Ads''] = Some ''Pamphlets''
   \<and> allocate_budget 1000 [''Pamphlets'', ''Facebook Ads'']
        [(''previous_campaign_summary'', ''The highest Conversion Rate was for Pamphlets'')]
      = Inr [(''Pamphlets'', 600), (''Facebook Ads'', 400)]"
  by code_simp

section \<open>Properties of the strategy correction and of the driver\<close>

lemma bind_call_Inr: "bind_run (call s (Inr x)) f trace = f x (trace @ [s])"
  by (simp add: bind_run_def call_def)

lemma bind_call_Inl: "bind_run (call s (Inl e)) f trace = (trace @ [s], Inl e)"
  by (simp add: bind_run_def call_def)

lemma bind_raise_if: "bind_run (raise_if b e) f trace = (if b then (trace, Inl e) else f () trace)"
  by (simp add: bind_run_def raise_if_def)

lemma parse_input_fields:
  assumes "parse_input inp = Inr cleaned"
  shows "py_item cleaned ''goal_description'' = Inr (PStr (goal_description inp))"
    and "py_item cleaned ''user_id'' = Inr (PStr (user_id inp))"
    and "py_item cleaned ''location'' = Inr (PStr (location inp))"
    and "get_default cleaned ''location'' (PStr []) = PStr (location inp)"
    and "get_default cleaned ''business_type'' (PStr []) = PStr (business_type inp)"
    and "\<exists>b. get_default cleaned ''budget'' (PInt 0) = PInt b"
  using assms
  by (cases "budget_fixed inp"; cases "budget_min inp"; cases "budget_max inp";
      auto simp add: parse_input_def CampaignInputInternal_dict_def check_channel_preference_def
        standardize_budget_def py_get_def opt_int_def remove_redundant_def py_item_def
        get_default_def split: if_splits)+

lemma generate_persona_error: "generate_persona c x = ErrorObject err d \<Longrightarrow> err \<noteq> []"
  by (auto simp add: generate_persona_def split: option.splits chain_outcome.splits)

lemma generate_strategy_error: "generate_strategy c x = ErrorObject err d \<Longrightarrow> err \<noteq> []"
  by (auto simp add: generate_strategy_def split: option.splits chain_outcome.splits sum.splits)

lemma generate_creative_error: "generate_creative c a p chs = ErrorObject err d \<Longrightarrow> err \<noteq> []"
  by (auto simp add: generate_creative_def split: option.splits chain_outcome.splits if_splits)

lemma generate_visual_prompts_error: "generate_visual_prompts c x = ErrorObject err d \<Longrightarrow> err \<noteq> []"
  by (auto simp add: generate_visual_prompts_def split: option.splits chain_outcome.splits)

lemma pipeline_body_unfold:
  fixes env :: collaborators and inp :: ApiInput
  assumes "parse_input inp = Inr cleaned"
  defines "entities \<equiv> extract_entities env (PStr (goal_description inp))"
  defines "prev \<equiv> get_previous_results (PStr (user_id inp))"
  defines "trend \<equiv> analyze_trends_via_search env
      (get_default entities ''products_services'' [] @ get_default entities ''misc_keywords'' [])
      (PStr (location inp))"
  defines "lc \<equiv> search_local_context env (PStr (location inp)) (PStr (business_type inp))
      (case get_default entities ''events'' [] of [] \<Rightarrow> None | ev # evs \<Rightarrow> Some ev)"
  defines "persona \<equiv> generate_persona (persona_chain env) (cleaned, entities, trend, lc, prev)"
  defines "strategy \<equiv> generate_strategy (strategy_chain env) (cleaned, persona, lc, prev)"
  defines "creative \<equiv> generate_creative (creative_llm env)
      (strategy_angle strategy ''Default Angle'') persona (strategy_channels strategy)"
  defines "visual \<equiv> generate_visual_prompts (visual_chain env)
      (strategy_angle strategy ''Default Angle'', persona, creative)"
  shows "pipeline_body env inp [] =
    (if get_error persona then
       ([ParseInput, ExtractEntities, GetPreviousResults, AnalyzeTrends, SearchLocalContext,
         GeneratePersona], Inl (StepFailed ''Persona'' (get_details persona)))
     else if get_error strategy then
       ([ParseInput, ExtractEntities, GetPreviousResults, AnalyzeTrends, SearchLocalContext,
         GeneratePersona, GenerateStrategy], Inl (StepFailed ''Strategy'' (get_details strategy)))
     else
       (case allocate_budget_of (get_default cleaned ''budget'' (PInt 0))
               (strategy_channels strategy) prev of
          Inl e \<Rightarrow>
            ([ParseInput, ExtractEntities, GetPreviousResults, AnalyzeTrends, SearchLocalContext,
              GeneratePersona, GenerateStrategy, AllocateBudget], Inl e)
        | Inr split \<Rightarrow>
            if get_error creative then
              ([ParseInput, ExtractEntities, GetPreviousResults, AnalyzeTrends,
                SearchLocalContext, GeneratePersona, GenerateStrategy, AllocateBudget,
                GenerateCreative], Inl (StepFailed ''Creative'' (get_details creative)))
            else if get_error visual then
              ([ParseInput, ExtractEntities, GetPreviousResults, AnalyzeTrends,
                SearchLocalContext, GeneratePersona, GenerateStrategy, AllocateBudget,
                GenerateCreative, GenerateVisualPrompts],
               Inl (StepFailed ''Visual Prompt'' (get_details visual)))
            else
              ([ParseInput, ExtractEntities, GetPreviousResults, AnalyzeTrends,
                SearchLocalContext, GeneratePersona, GenerateStrategy, AllocateBudget,
                GenerateCreative, GenerateVisualPrompts, Aggregate],
               Inr \<lparr>campaign_overview =
                      \<lparr>suggested_theme_name = strategy_angle strategy ''Generated Campaign'',
                       strategic_angle = strategy_angle strategy ''N/A'',
                       primary_target_audience = persona,
                       overview_timing_recommendation = timing_recommendation trend,
                       competitor_note = competitor_types_summary lc\<rparr>,
                    channel_recommendations =
                      map (channel_rec split creative (visual_prompts_of visual))
                        (strategy_channels strategy),
                    feedback_loop_note =
                      get_default prev ''previous_campaign_summary'' ''No past data used.''\<rparr>)))"
proof -
  note f = parse_input_fields [OF assms(1)]
  show ?thesis
    unfolding pipeline_body_def
    by (simp add: assms(1) f(1-5) bind_call_Inr bind_call_Inl bind_raise_if call_def
        entities_def [symmetric] prev_def [symmetric] trend_def [symmetric] lc_def [symmetric]
        persona_def [symmetric] strategy_def [symmetric] creative_def [symmetric]
        visual_def [symmetric] split: sum.splits)
qed

lemma first_max_split_pair:
  "\<exists>pre w post. (k, v) # rest = pre @ (first_max (k, v) rest, w) # post
     \<and> (\<forall>x \<in> set pre. snd x < w) \<and> (\<forall>x \<in> set post. snd x \<le> w) \<and> v \<le> w"
proof (induction rest arbitrary: k v)
  case Nil
  have "(k, v) # [] = [] @ (first_max (k, v) [], v) # []
     \<and> (\<forall>x \<in> set []. snd x < v) \<and> (\<forall>x \<in> set []. snd x \<le> v) \<and> v \<le> v"
    by simp
  then show ?case by blast
next
  case (Cons a rest)
  obtain k' v' where a: "a = (k', v')" by (cases a)
  show ?case
  proof (cases "v < v'")
    case True
    obtain pre w post where e: "(k', v') # rest = pre @ (first_max (k', v') rest, w) # post"
      and p: "\<forall>x \<in> set pre. snd x < w" and q: "\<forall>x \<in> set post. snd x \<le> w" and r: "v' \<le> w"
      using Cons.IH [of k' v'] by blast
    have fm: "first_max (k, v) (a # rest) = first_max (k', v') rest" using True by (simp add: a)
    have "(k, v) # a # rest = (k, v) # ((k', v') # rest)" by (simp add: a)
    also have "\<dots> = (k, v) # (pre @ (first_max (k', v') rest, w) # post)" by (simp only: e)
    also have "\<dots> = ((k, v) # pre) @ (first_max (k, v) (a # rest), w) # post" by (simp add: fm)
    finally have "(k, v) # a # rest = ((k, v) # pre) @ (first_max (k, v) (a # rest), w) # post" .
    moreover have "\<forall>x \<in> set ((k, v) # pre). snd x < w" using p True r by simp
    moreover have "v \<le> w" using True r by simp
    ultimately show ?thesis using q by blast
  next
    case False
    obtain pre w post where e: "(k, v) # rest = pre @ (first_max (k, v) rest, w) # post"
      and p: "\<forall>x \<in> set pre. snd x < w" and q: "\<forall>x \<in> set post. snd x \<le> w" and r: "v \<le> w"
      using Cons.IH [of k v] by blast
    have fm: "first_max (k, v) (a # rest) = first_max (k, v) rest" using False by (simp add: a)
    show ?thesis
    proof (cases pre)
      case Nil
      have "(k, v) # rest = (first_max (k, v) rest, w) # post"
        using e unfolding Nil append_Nil .
      then have h: "(k, v) = (first_max (k, v) rest, w)" and rp: "rest = post"
        by (rule list.inject [THEN iffD1, THEN conjunct1], rule list.inject [THEN iffD1, THEN conjunct2])
      have hv: "v = w" using h by (rule Pair_inject)
      have "(k, v) # a # rest = (first_max (k, v) rest, w) # a # post"
        by (simp only: h [symmetric] rp [symmetric])
      then have "(k, v) # a # rest = [] @ (first_max (k, v) (a # rest), w) # (a # post)"
        by (simp only: fm append_Nil)
      moreover have "\<forall>x \<in> set (a # post). snd x \<le> w" using q False hv by (simp add: a)
      moreover have "\<forall>x \<in> set ([] :: (string \<times> int) list). snd x < w" by simp
      ultimately show ?thesis using r by blast
    next
      case (Cons b pre')
      have "(k, v) # rest = b # (pre' @ (first_max (k, v) rest, w) # post)"
        using e unfolding Cons append_Cons .
      then have b: "(k, v) = b" and rest: "rest = pre' @ (first_max (k, v) rest, w) # post"
        by (rule list.inject [THEN iffD1, THEN conjunct1], rule list.inject [THEN iffD1, THEN conjunct2])
      have "snd b < w" using p Cons by simp
      then have vw: "v < w" using b by auto
      have "(k, v) # a # rest = (k, v) # a # (pre' @ (first_max (k, v) rest, w) # post)"
        using rest by (rule arg_cong)
      then have "(k, v) # a # rest = ((k, v) # a # pre') @ (first_max (k, v) (a # rest), w) # post"
        by (simp only: fm append_Cons)
      moreover have "\<forall>x \<in> set ((k, v) # a # pre'). snd x < w"
        using p Cons vw False by (auto simp add: a)
      ultimately show ?thesis using q r by blast
    qed
  qed
qed

lemma map_entry_at:
  assumes "k \<notin> fst ` set pre"
  shows "AList.map_entry k f (pre @ (k, v) # post) = pre @ (k, f v) # post"
  using assms by (induction pre) auto

lemma update_append:
  assumes "k \<notin> fst ` set d"
  shows "AList.update k v d = d @ [(k, v)]"
  using assms by (induction d) auto

lemma initial_allocations_distinct:
  assumes "distinct chans" "set chans \<inter> fst ` set d = {}"
  shows "initial_allocations base rem i chans d
    = d @ map (\<lambda>(j, ch). (ch, base + (if int j < rem then 1 else 0))) (enumerate i chans)"
  using assms
proof (induction chans arbitrary: d i)
  case Nil
  then show ?case by simp
next
  case (Cons ch chans)
  have n: "ch \<notin> fst ` set d" using Cons.prems(2) by auto
  have u: "AList.update ch (base + (if int i < rem then 1 else 0)) d
      = d @ [(ch, base + (if int i < rem then 1 else 0))]"
    by (rule update_append [OF n])
  have d: "distinct chans" using Cons.prems(1) by simp
  have di: "set chans \<inter> fst ` set (d @ [(ch, base + (if int i < rem then 1 else 0))]) = {}"
    using Cons.prems by auto
  show ?case
    using Cons.IH [OF d di, of "Suc i"] by (simp add: u)
qed

lemma sum_enumerate_split:
  "sum_list (map snd (map (\<lambda>(j, ch). (ch, base + (if int j < rem then 1 else (0::int))))
       (enumerate i chans)))
   = int (length chans) * base + (min (int (i + length chans)) rem - min (int i) rem)"
proof (induction chans arbitrary: i)
  case Nil
  then show ?case by simp
next
  case (Cons ch chans)
  have "min (int (Suc i)) rem - min (int i) rem = (if int i < rem then 1 else 0)"
    by (auto simp add: min_def)
  then show ?case using Cons.IH [of "Suc i"] by (simp add: algebra_simps)
qed

lemma equal_resplit_distinct:
  assumes "distinct channels" "channels \<noteq> []"
  shows "\<exists>new_split. equal_resplit total_budget channels = Inr new_split
     \<and> map fst new_split = channels
     \<and> sum_list (map snd new_split) = total_budget"
proof -
  define n where "n = int (length channels)"
  define base where "base = total_budget div n"
  define r where "r = total_budget mod n"
  define new_split where "new_split =
     map (\<lambda>(j, ch). (ch, base + (if int j < r then 1 else 0))) (enumerate 0 channels)"
  have n0: "0 < n" using assms(2) by (simp add: n_def)
  have r0: "0 \<le> r" "r < n" using n0 by (simp_all add: r_def)
  have "initial_allocations base r 0 channels [] = [] @ new_split"
    unfolding new_split_def by (rule initial_allocations_distinct [OF assms(1)]) simp
  then have e: "equal_resplit total_budget channels = Inr new_split"
    using n0 by (simp add: equal_resplit_def Let_def n_def [symmetric] base_def [symmetric]
        r_def [symmetric])
  have k: "map fst new_split = channels"
    by (simp add: new_split_def map_idI comp_def case_prod_beta map_snd_enumerate)
  have "sum_list (map snd new_split)
      = int (length channels) * base + (min (int (0 + length channels)) r - min (int 0) r)"
    unfolding new_split_def by (rule sum_enumerate_split)
  also have "\<dots> = n * base + r" using r0 by (simp add: n_def)
  also have "\<dots> = total_budget" by (simp add: base_def r_def)
  finally show ?thesis using e k by blast
qed

lemma py_in_sublist: "py_in sub s \<longleftrightarrow> sublist sub s"
  by (induction s) (auto simp add: sublist_Cons_right)

text \<open>
  C4. When adding the difference would leave the largest channel negative, the code does not
  add it: it replaces the whole split by an equal split over \<open>recommended_channels\<close>.
  With the raw split \<open>{"A": 1000, "B": 1000}\<close> and a total of 500 the result is
  \<open>{"A": 250, "B": 250}\<close>, not \<open>{"A": -500, "B": 1000}\<close>.
\<close>

theorem postprocess_budget_fallback:
  "postprocess_budget 500
     \<lparr>recommended_channels = Some [''A'', ''B''],
      budget_split = Some [(''A'', 1000), (''B'', 1000)],
      campaign_angle = Some ''Festive'', justification = Some ''none''\<rparr>
   = Inr \<lparr>recommended_channels = Some [''A'', ''B''],
          budget_split = Some [(''A'', 250), (''B'', 250)],
          campaign_angle = Some ''Festive'', justification = Some ''none''\<rparr>"
  by (simp add: postprocess_budget_def equal_resplit_def Let_def)

text \<open>
  C4, amended. For a raw split that is not empty and a difference
  \<open>diff = total_budget - sum(raw_split.values())\<close> that is not zero, let \<open>largest\<close> be
  the first channel, in iteration order, among those with the largest allocation \<open>v\<close>.
  If \<open>v + diff\<close> is not negative, the whole difference is added to that channel, the
  other entries stay, and the corrected split sums exactly to the total budget. If
  \<open>v + diff\<close> is negative, the split is replaced by an equal split over
  \<open>recommended_channels\<close>, which has those channels as keys and sums exactly to the total
  budget when the channel list is not empty and has no duplicates.
\<close>

theorem postprocess_budget_correction:
  fixes result :: CampaignStrategy
  assumes "budget_split result = Some split" "split \<noteq> []" "distinct (map fst split)"
    and "total_budget - sum_list (map snd split) \<noteq> 0"
  defines "diff \<equiv> total_budget - sum_list (map snd split)"
  defines "largest \<equiv> first_max (hd split) (tl split)"
  shows "\<exists>pre v post. split = pre @ (largest, v) # post
    \<and> (\<forall>x \<in> set pre. snd x < v) \<and> (\<forall>x \<in> set post. snd x \<le> v)
    \<and> (0 \<le> v + diff \<longrightarrow>
          postprocess_budget total_budget result
            = Inr (result\<lparr>budget_split := Some (pre @ (largest, v + diff) # post)\<rparr>)
          \<and> sum_list (map snd (pre @ (largest, v + diff) # post)) = total_budget)
    \<and> (v + diff < 0 \<longrightarrow>
          (\<forall>channels. recommended_channels result = Some channels \<and> channels \<noteq> []
             \<and> distinct channels \<longrightarrow>
             (\<exists>new_split. postprocess_budget total_budget result
                  = Inr (result\<lparr>budget_split := Some new_split\<rparr>)
                \<and> map fst new_split = channels
                \<and> sum_list (map snd new_split) = total_budget)))"
proof -
  obtain kv rest where sp: "split = kv # rest" using assms(2) by (cases split) auto
  obtain k0 v0 where kv: "kv = (k0, v0)" by (cases kv)
  have lg: "largest = first_max (k0, v0) rest" by (simp add: largest_def sp kv)
  obtain pre v post where e: "split = pre @ (largest, v) # post"
    and p: "\<forall>x \<in> set pre. snd x < v" and q: "\<forall>x \<in> set post. snd x \<le> v"
    using first_max_split_pair [of k0 v0 rest] unfolding lg sp kv by blast
  have np: "largest \<notin> fst ` set pre" using assms(3) unfolding e by auto
  define adjusted where "adjusted = pre @ (largest, v + diff) # post"
  have me: "AList.map_entry largest (\<lambda>x. x + diff) split = adjusted"
    unfolding e adjusted_def by (rule map_entry_at [OF np])
  have look: "map_of adjusted largest = Some (v + diff)"
    using np unfolding adjusted_def by (induction pre) auto
  have sm: "sum_list (map snd adjusted) = total_budget"
    by (simp add: adjusted_def diff_def e)
  have pp: "postprocess_budget total_budget result =
      (if v + diff < 0 then
         (case recommended_channels result of
            None \<Rightarrow> Inl (KeyError ''recommended_channels'')
          | Some channels \<Rightarrow>
              (case equal_resplit total_budget channels of
                 Inl e \<Rightarrow> Inl e
               | Inr new_split \<Rightarrow> Inr (result\<lparr>budget_split := Some new_split\<rparr>)))
       else Inr (result\<lparr>budget_split := Some adjusted\<rparr>))"
  proof -
    have d: "total_budget - sum_list (map snd (kv # rest)) = diff" by (simp add: diff_def sp)
    have m: "AList.map_entry (first_max kv rest) (\<lambda>x. x + diff) (kv # rest) = adjusted"
      using me by (simp add: sp lg kv)
    have l: "map_of adjusted (first_max kv rest) = Some (v + diff)"
      using look by (simp add: lg kv)
    have nz: "diff \<noteq> 0" using assms(4) by (simp add: diff_def)
    show ?thesis
      unfolding postprocess_budget_def assms(1) sp Let_def
      by (simp only: option.case list.case d m l nz if_True if_False not_False_eq_True)
  qed
  have a: "0 \<le> v + diff \<longrightarrow>
      postprocess_budget total_budget result = Inr (result\<lparr>budget_split := Some adjusted\<rparr>)
      \<and> sum_list (map snd adjusted) = total_budget"
    using pp sm by simp
  have b: "v + diff < 0 \<longrightarrow>
      (\<forall>channels. recommended_channels result = Some channels \<and> channels \<noteq> []
         \<and> distinct channels \<longrightarrow>
         (\<exists>new_split. postprocess_budget total_budget result
              = Inr (result\<lparr>budget_split := Some new_split\<rparr>)
            \<and> map fst new_split = channels
            \<and> sum_list (map snd new_split) = total_budget))"
  proof (intro impI allI)
    fix channels
    assume neg: "v + diff < 0"
      and ch: "recommended_channels result = Some channels \<and> channels \<noteq> [] \<and> distinct channels"
    then obtain new_split where er: "equal_resplit total_budget channels = Inr new_split"
      and k: "map fst new_split = channels" and s: "sum_list (map snd new_split) = total_budget"
      using equal_resplit_distinct [of channels total_budget] by blast
    have "postprocess_budget total_budget result
        = Inr (result\<lparr>budget_split := Some new_split\<rparr>)"
      using pp neg ch er by simp
    then show "\<exists>new_split. postprocess_budget total_budget result
              = Inr (result\<lparr>budget_split := Some new_split\<rparr>)
            \<and> map fst new_split = channels
            \<and> sum_list (map snd new_split) = total_budget"
      using k s by blast
  qed
  show ?thesis using e p q a b unfolding adjusted_def by blast
qed

theorem postprocess_budget_correction_witness:
  "postprocess_budget 2500
     \<lparr>recommended_channels = Some [''A'', ''B''],
      budget_split = Some [(''A'', 1000), (''B'', 1000)],
      campaign_angle = Some ''Festive'', justification = Some ''none''\<rparr>
   = Inr \<lparr>recommended_channels = Some [''A'', ''B''],
          budget_split = Some [(''A'', 1500), (''B'', 1000)],
          campaign_angle = Some ''Festive'', justification = Some ''none''\<rparr>
   \<and> sum_list (map snd [(''A'', 1500), (''B'', 1000 :: int)]) = 2500"
proof -
  define result where "result = \<lparr>recommended_channels = Some [''A'', ''B''],
      budget_split = Some [(''A'', 1000), (''B'', 1000 :: int)],
      campaign_angle = Some ''Festive'', justification = Some ''none''\<rparr>"
  have h1: "budget_split result = Some [(''A'', 1000), (''B'', 1000)]" by (simp add: result_def)
  have h2: "[(''A'', 1000 :: int), (''B'', 1000)] \<noteq> []" by simp
  have h3: "distinct (map fst [(''A'', 1000 :: int), (''B'', 1000)])" by simp
  have h4: "2500 - sum_list (map snd [(''A'', 1000 :: int), (''B'', 1000)]) \<noteq> 0" by simp
  obtain pre v post where e: "[(''A'', 1000 :: int), (''B'', 1000)]
        = pre @ (first_max (hd [(''A'', 1000), (''B'', 1000)]) (tl [(''A'', 1000), (''B'', 1000)]), v) # post"
    and p: "\<forall>x \<in> set pre. snd x < v"
    and c: "0 \<le> v + (2500 - sum_list (map snd [(''A'', 1000 :: int), (''B'', 1000)])) \<longrightarrow>
       postprocess_budget 2500 result
         = Inr (result\<lparr>budget_split := Some (pre @
             (first_max (hd [(''A'', 1000), (''B'', 1000)]) (tl [(''A'', 1000), (''B'', 1000)]),
              v + (2500 - sum_list (map snd [(''A'', 1000 :: int), (''B'', 1000)]))) # post)\<rparr>)"
    using postprocess_budget_correction [OF h1 h2 h3 h4] by blast
  have fm: "first_max (hd [(''A'', 1000 :: int), (''B'', 1000)]) (tl [(''A'', 1000), (''B'', 1000)]) = ''A''"
    by simp
  have "pre = [] \<and> v = 1000 \<and> post = [(''B'', 1000)]"
  proof (cases pre)
    case Nil
    then show ?thesis using e unfolding fm by simp
  next
    case (Cons x xs)
    then have "x = (''A'', 1000)" using e unfolding fm by simp
    moreover have "xs @ (''A'', v) # post = [(''B'', 1000)]" using e Cons unfolding fm by simp
    then have "xs = [] \<and> v = 1000" by (cases xs) auto
    ultimately have False using p Cons by simp
    then show ?thesis ..
  qed
  then show ?thesis using c unfolding fm by (simp add: result_def)
qed

section \<open>Properties of the assembled plan\<close>

lemma run_pipeline_parse_error:
  assumes "parse_input inp = Inl e"
  shows "run_pipeline env inp = ([ParseInput], Inl (to_http e))"
  by (simp add: run_pipeline_def pipeline_body_def bind_call_Inl assms)

lemma run_pipeline_success:
  fixes env :: collaborators and inp :: ApiInput
  assumes "run_pipeline env inp = (trace, Inr plan)"
  shows "\<exists>cleaned persona lc strategy creative visual split.
      parse_input inp = Inr cleaned
    \<and> strategy = generate_strategy (strategy_chain env)
          (cleaned, persona, lc, get_previous_results (PStr (user_id inp)))
    \<and> allocate_budget_of (get_default cleaned ''budget'' (PInt 0))
          (strategy_channels strategy) (get_previous_results (PStr (user_id inp))) = Inr split
    \<and> channel_recommendations plan
        = map (channel_rec split creative (visual_prompts_of visual)) (strategy_channels strategy)"
proof (cases "parse_input inp")
  case (Inl e)
  then show ?thesis using assms by (simp add: run_pipeline_parse_error)
next
  case (Inr cleaned)
  define entities where "entities = extract_entities env (PStr (goal_description inp))"
  define prev where "prev = get_previous_results (PStr (user_id inp))"
  define trend where "trend = analyze_trends_via_search env
      (get_default entities ''products_services'' [] @ get_default entities ''misc_keywords'' [])
      (PStr (location inp))"
  define lc where "lc = search_local_context env (PStr (location inp)) (PStr (business_type inp))
      (case get_default entities ''events'' [] of [] \<Rightarrow> None | ev # evs \<Rightarrow> Some ev)"
  define persona where
    "persona = generate_persona (persona_chain env) (cleaned, entities, trend, lc, prev)"
  define strategy where
    "strategy = generate_strategy (strategy_chain env) (cleaned, persona, lc, prev)"
  define creative where "creative = generate_creative (creative_llm env)
      (strategy_angle strategy ''Default Angle'') persona (strategy_channels strategy)"
  define visual where "visual = generate_visual_prompts (visual_chain env)
      (strategy_angle strategy ''Default Angle'', persona, creative)"
  define alloc where "alloc = allocate_budget_of (get_default cleaned ''budget'' (PInt 0))
      (strategy_channels strategy) prev"
  have u: "pipeline_body env inp [] =
    (if get_error persona then
       ([ParseInput, ExtractEntities, GetPreviousResults, AnalyzeTrends, SearchLocalContext,
         GeneratePersona], Inl (StepFailed ''Persona'' (get_details persona)))
     else if get_error strategy then
       ([ParseInput, ExtractEntities, GetPreviousResults, AnalyzeTrends, SearchLocalContext,
         GeneratePersona, GenerateStrategy], Inl (StepFailed ''Strategy'' (get_details strategy)))
     else
       (case alloc of
          Inl e \<Rightarrow>
            ([ParseInput, ExtractEntities, GetPreviousResults, AnalyzeTrends, SearchLocalContext,
              GeneratePersona, GenerateStrategy, AllocateBudget], Inl e)
        | Inr split \<Rightarrow>
            if get_error creative then
              ([ParseInput, ExtractEntities, GetPreviousResults, AnalyzeTrends,
                SearchLocalContext, GeneratePersona, GenerateStrategy, AllocateBudget,
                GenerateCreative], Inl (StepFailed ''Creative'' (get_details creative)))
            else if get_error visual then
              ([ParseInput, ExtractEntities, GetPreviousResults, AnalyzeTrends,
                SearchLocalContext, GeneratePersona, GenerateStrategy, AllocateBudget,
                GenerateCreative, GenerateVisualPrompts],
               Inl (StepFailed ''Visual Prompt'' (get_details visual)))
            else
              ([ParseInput, ExtractEntities, GetPreviousResults, AnalyzeTrends,
                SearchLocalContext, GeneratePersona, GenerateStrategy, AllocateBudget,
                GenerateCreative, GenerateVisualPrompts, Aggregate],
               Inr \<lparr>campaign_overview =
                      \<lparr>suggested_theme_name = strategy_angle strategy ''Generated Campaign'',
                       strategic_angle = strategy_angle strategy ''N/A'',
                       primary_target_audience = persona,
                       overview_timing_recommendation = timing_recommendation trend,
                       competitor_note = competitor_types_summary lc\<rparr>,
                    channel_recommendations =
                      map (channel_rec split creative (visual_prompts_of visual))
                        (strategy_channels strategy),
                    feedback_loop_note =
                      get_default prev ''previous_campaign_summary'' ''No past data used.''\<rparr>)))"
    unfolding alloc_def visual_def creative_def strategy_def persona_def lc_def trend_def
      prev_def entities_def
    by (rule pipeline_body_unfold [OF Inr])
  have pb: "\<exists>t. pipeline_body env inp [] = (t, Inr plan)"
    using assms unfolding run_pipeline_def
    by (cases "pipeline_body env inp []"; cases "snd (pipeline_body env inp [])") auto
  have np: "\<not> get_error persona" using pb unfolding u by (auto split: if_splits)
  have ns: "\<not> get_error strategy" using pb np unfolding u by (auto split: if_splits)
  obtain split where al: "alloc = Inr split"
    using pb np ns unfolding u by (cases alloc) auto
  have "channel_recommendations plan
      = map (channel_rec split creative (visual_prompts_of visual)) (strategy_channels strategy)"
    using pb np ns al unfolding u by (auto split: if_splits)
  then have "parse_input inp = Inr cleaned
    \<and> strategy = generate_strategy (strategy_chain env)
          (cleaned, persona, lc, get_previous_results (PStr (user_id inp)))
    \<and> allocate_budget_of (get_default cleaned ''budget'' (PInt 0))
          (strategy_channels strategy) (get_previous_results (PStr (user_id inp))) = Inr split
    \<and> channel_recommendations plan
        = map (channel_rec split creative (visual_prompts_of visual)) (strategy_channels strategy)"
    using Inr al by (simp add: strategy_def alloc_def prev_def)
  then show ?thesis by blast
qed

lemma plan_channels_Some:
  assumes "plan_channels response = Some xs"
  shows "\<exists>trace plan. response = (trace, Inr plan)"
  using assms by (cases response; cases "snd response") (auto simp add: plan_channels_def)

text \<open>
  C2 as stated fails. With a strategy chain that proposes 4000 for \<open>Facebook Local Ads\<close> and
  2000 for \<open>Flyers & Posters\<close> out of 6000, the Strategy Recommender's corrected split is
  that very split (it already sums to 6000), the Budget Allocator returns 3000 and 3000, and
  the plan that \<open>run_pipeline\<close> returns shows 3000 and 3000: the Allocator's figures.
\<close>

theorem plan_takes_allocator_split:
  "postprocess_budget 6000
     \<lparr>recommended_channels = Some [''Facebook Local Ads'', ''Flyers & Posters''],
      budget_split = Some [(''Facebook Local Ads'', 4000), (''Flyers & Posters'', 2000)],
      campaign_angle = Some ''Festive Savings'', justification = Some ''Past results''\<rparr>
   = Inr \<lparr>recommended_channels = Some [''Facebook Local Ads'', ''Flyers & Posters''],
      budget_split = Some [(''Facebook Local Ads'', 4000), (''Flyers & Posters'', 2000)],
      campaign_angle = Some ''Festive Savings'', justification = Some ''Past results''\<rparr>
   \<and> allocate_budget 6000 [''Facebook Local Ads'', ''Flyers & Posters'']
       (get_previous_results (PStr ''user123_with_history''))
     = Inr [(''Facebook Local Ads'', 3000), (''Flyers & Posters'', 3000)]
   \<and> plan_channels (run_pipeline sample_env sample_input)
     = Some [(''Facebook Local Ads'', 3000, ''Copy for Facebook Local Ads'', ''link''),
             (''Flyers & Posters'', 3000, ''N/A'', ''qr_code'')]"
  by code_simp

text \<open>
  C2, amended. In every plan that \<open>run_pipeline\<close> returns, the channels are the Strategy
  Recommender's recommended channels in their order, and each \<open>allocated_budget\<close> is
  \<open>budget_split.get(channel, 0)\<close> in the split that \<open>allocate_budget\<close> returned for the
  cleaned budget, those channels and the history; the Strategy Recommender's own split is not
  read.
\<close>

theorem allocated_budget_from_allocator:
  fixes env :: collaborators and inp :: ApiInput
  assumes "run_pipeline env inp = (trace, Inr plan)"
  shows "\<exists>cleaned persona lc strategy split.
      parse_input inp = Inr cleaned
    \<and> strategy = generate_strategy (strategy_chain env)
          (cleaned, persona, lc, get_previous_results (PStr (user_id inp)))
    \<and> allocate_budget_of (get_default cleaned ''budget'' (PInt 0))
          (strategy_channels strategy) (get_previous_results (PStr (user_id inp))) = Inr split
    \<and> map channel_name (channel_recommendations plan) = strategy_channels strategy
    \<and> map allocated_budget (channel_recommendations plan)
        = map (\<lambda>channel. get_default split channel 0) (strategy_channels strategy)"
proof -
  obtain cleaned persona lc strategy creative visual split where
    "parse_input inp = Inr cleaned"
    "strategy = generate_strategy (strategy_chain env)
          (cleaned, persona, lc, get_previous_results (PStr (user_id inp)))"
    "allocate_budget_of (get_default cleaned ''budget'' (PInt 0))
          (strategy_channels strategy) (get_previous_results (PStr (user_id inp))) = Inr split"
    and recs: "channel_recommendations plan
        = map (channel_rec split creative (visual_prompts_of visual)) (strategy_channels strategy)"
    using run_pipeline_success [OF assms] by blast
  moreover have "map channel_name (channel_recommendations plan) = strategy_channels strategy"
    unfolding recs by (simp add: channel_rec_def comp_def)
  moreover have "map allocated_budget (channel_recommendations plan)
        = map (\<lambda>channel. get_default split channel 0) (strategy_channels strategy)"
    unfolding recs by (simp add: channel_rec_def comp_def)
  ultimately show ?thesis by blast
qed

theorem allocated_budget_from_allocator_witness:
  "\<exists>trace plan cleaned persona lc strategy split.
      run_pipeline sample_env sample_input = (trace, Inr plan)
    \<and> parse_input sample_input = Inr cleaned
    \<and> strategy = generate_strategy (strategy_chain sample_env)
          (cleaned, persona, lc, get_previous_results (PStr (user_id sample_input)))
    \<and> allocate_budget_of (get_default cleaned ''budget'' (PInt 0))
          (strategy_channels strategy) (get_previous_results (PStr (user_id sample_input)))
        = Inr split
    \<and> map channel_name (channel_recommendations plan) = strategy_channels strategy
    \<and> map allocated_budget (channel_recommendations plan)
        = map (\<lambda>channel. get_default split channel 0) (strategy_channels strategy)"
proof -
  have "plan_channels (run_pipeline sample_env sample_input)
     = Some [(''Facebook Local Ads'', 3000, ''Copy for Facebook Local Ads'', ''link''),
             (''Flyers & Posters'', 3000, ''N/A'', ''qr_code'')]"
    by code_simp
  then obtain trace plan where r: "run_pipeline sample_env sample_input = (trace, Inr plan)"
    using plan_channels_Some by blast
  show ?thesis using allocated_budget_from_allocator [OF r] r by blast
qed

text \<open>
  C3. The two key derivations differ: for the channel \<open>Flyers & Posters\<close> the Creative Writer
  names the field \<open>flyers_and_posters_copy\<close>, the aggregation loop looks up
  \<open>flyers_&_posters_copy\<close>, and the copy the Creative Writer returned under its own key is
  replaced by \<open>N/A\<close> in the plan.
\<close>

theorem copy_key_mismatch:
  "key_name ''Flyers & Posters'' = ''flyers_and_posters_copy''
   \<and> channel_copy_key ''Flyers & Posters'' = ''flyers_&_posters_copy''
   \<and> suggested_copy (content (channel_rec [] (Result [(key_name ''Flyers & Posters'', ''Visit us'')])
        [] ''Flyers & Posters'')) = ''N/A''"
  by code_simp

text \<open>
  C10. In every plan that \<open>run_pipeline\<close> returns, the \<open>tracking_info_type\<close> of a channel
  recommendation is \<open>link\<close> exactly when its channel name contains \<open>Ads\<close> or \<open>Online\<close>
  (case-sensitively), and \<open>qr_code\<close> exactly otherwise.
\<close>

theorem tracking_info_type_rule:
  fixes env :: collaborators and inp :: ApiInput
  assumes "run_pipeline env inp = (trace, Inr plan)"
    and "r \<in> set (channel_recommendations plan)"
  shows "(tracking_info_type r = ''link''
            \<longleftrightarrow> sublist ''Ads'' (channel_name r) \<or> sublist ''Online'' (channel_name r))
    \<and> (tracking_info_type r = ''qr_code''
            \<longleftrightarrow> \<not> (sublist ''Ads'' (channel_name r) \<or> sublist ''Online'' (channel_name r)))"
proof -
  obtain split creative visual chans where
    recs: "channel_recommendations plan = map (channel_rec split creative visual) chans"
    using run_pipeline_success [OF assms(1)] by blast
  then obtain channel where "r = channel_rec split creative visual channel"
    using assms(2) by auto
  then show ?thesis by (simp add: channel_rec_def py_in_sublist)
qed

theorem tracking_info_type_rule_witness:
  "\<exists>trace plan. run_pipeline sample_env sample_input = (trace, Inr plan)
     \<and> list_all (\<lambda>r. (tracking_info_type r = ''link''
            \<longleftrightarrow> sublist ''Ads'' (channel_name r) \<or> sublist ''Online'' (channel_name r))
        \<and> (tracking_info_type r = ''qr_code''
            \<longleftrightarrow> \<not> (sublist ''Ads'' (channel_name r) \<or> sublist ''Online'' (channel_name r))))
       (channel_recommendations plan)
     \<and> map tracking_info_type (channel_recommendations plan) = [''link'', ''qr_code'']"
proof -
  have pc: "plan_channels (run_pipeline sample_env sample_input)
     = Some [(''Facebook Local Ads'', 3000, ''Copy for Facebook Local Ads'', ''link''),
             (''Flyers & Posters'', 3000, ''N/A'', ''qr_code'')]"
    by code_simp
  then obtain trace plan where r: "run_pipeline sample_env sample_input = (trace, Inr plan)"
    using plan_channels_Some by blast
  have "map (\<lambda>r. (channel_name r, allocated_budget r, suggested_copy (content r),
                           tracking_info_type r)) (channel_recommendations plan)
     = [(''Facebook Local Ads'', 3000, ''Copy for Facebook Local Ads'', ''link''),
             (''Flyers & Posters'', 3000, ''N/A'', ''qr_code'')]"
    using pc unfolding r by (simp add: plan_channels_def)
  then have "map (\<lambda>x. snd (snd (snd x))) (map (\<lambda>r. (channel_name r, allocated_budget r, suggested_copy (content r),
                           tracking_info_type r)) (channel_recommendations plan))
     = [''link'', ''qr_code'']"
    by simp
  then have t: "map tracking_info_type (channel_recommendations plan) = [''link'', ''qr_code'']"
    by (simp add: comp_def)
  show ?thesis
    using tracking_info_type_rule [OF r] r t by (auto simp add: list_all_iff)
qed

lemma to_http_StepFailed: "to_http (StepFailed s d) = HTTPException 500 (Str (StepFailed s d))"
  by (simp add: to_http_def)

text \<open>
  C5. Let the request be accepted by the parser. If the persona step returns an error object,
  the steps run are exactly those up to the persona step and the answer is the HTTP error 500
  whose detail is the failure of that step; likewise for the strategy step, for the creative
  step and for the visual prompt step (the last two are reached only once the budget
  allocation has returned). In each case no later step runs and no plan is returned.
\<close>

theorem fatal_step_halts:
  fixes env :: collaborators and inp :: ApiInput
  assumes "parse_input inp = Inr cleaned"
  defines "entities \<equiv> extract_entities env (PStr (goal_description inp))"
  defines "prev \<equiv> get_previous_results (PStr (user_id inp))"
  defines "trend \<equiv> analyze_trends_via_search env
      (get_default entities ''products_services'' [] @ get_default entities ''misc_keywords'' [])
      (PStr (location inp))"
  defines "lc \<equiv> search_local_context env (PStr (location inp)) (PStr (business_type inp))
      (case get_default entities ''events'' [] of [] \<Rightarrow> None | ev # evs \<Rightarrow> Some ev)"
  defines "persona \<equiv> generate_persona (persona_chain env) (cleaned, entities, trend, lc, prev)"
  defines "strategy \<equiv> generate_strategy (strategy_chain env) (cleaned, persona, lc, prev)"
  defines "creative \<equiv> generate_creative (creative_llm env)
      (strategy_angle strategy ''Default Angle'') persona (strategy_channels strategy)"
  defines "visual \<equiv> generate_visual_prompts (visual_chain env)
      (strategy_angle strategy ''Default Angle'', persona, creative)"
  shows "(\<forall>err d. persona = ErrorObject err d \<longrightarrow>
            run_pipeline env inp =
              ([ParseInput, ExtractEntities, GetPreviousResults, AnalyzeTrends,
                SearchLocalContext, GeneratePersona],
               Inl (HTTPException 500 (Str (StepFailed ''Persona'' d)))))
    \<and> (\<forall>p err d. persona = Result p \<and> strategy = ErrorObject err d \<longrightarrow>
            run_pipeline env inp =
              ([ParseInput, ExtractEntities, GetPreviousResults, AnalyzeTrends,
                SearchLocalContext, GeneratePersona, GenerateStrategy],
               Inl (HTTPException 500 (Str (StepFailed ''Strategy'' d)))))
    \<and> (\<forall>p s split err d. persona = Result p \<and> strategy = Result s
            \<and> allocate_budget_of (get_default cleaned ''budget'' (PInt 0))
                 (strategy_channels strategy) prev = Inr split
            \<and> creative = ErrorObject err d \<longrightarrow>
            run_pipeline env inp =
              ([ParseInput, ExtractEntities, GetPreviousResults, AnalyzeTrends,
                SearchLocalContext, GeneratePersona, GenerateStrategy, AllocateBudget,
                GenerateCreative],
               Inl (HTTPException 500 (Str (StepFailed ''Creative'' d)))))
    \<and> (\<forall>p s split c err d. persona = Result p \<and> strategy = Result s
            \<and> allocate_budget_of (get_default cleaned ''budget'' (PInt 0))
                 (strategy_channels strategy) prev = Inr split
            \<and> creative = Result c \<and> visual = ErrorObject err d \<longrightarrow>
            run_pipeline env inp =
              ([ParseInput, ExtractEntities, GetPreviousResults, AnalyzeTrends,
                SearchLocalContext, GeneratePersona, GenerateStrategy, AllocateBudget,
                GenerateCreative, GenerateVisualPrompts],
               Inl (HTTPException 500 (Str (StepFailed ''Visual Prompt'' d)))))"
proof -
  have u: "pipeline_body env inp [] =
    (if get_error persona then
       ([ParseInput, ExtractEntities, GetPreviousResults, AnalyzeTrends, SearchLocalContext,
         GeneratePersona], Inl (StepFailed ''Persona'' (get_details persona)))
     else if get_error strategy then
       ([ParseInput, ExtractEntities, GetPreviousResults, AnalyzeTrends, SearchLocalContext,
         GeneratePersona, GenerateStrategy], Inl (StepFailed ''Strategy'' (get_details strategy)))
     else
       (case allocate_budget_of (get_default cleaned ''budget'' (PInt 0))
               (strategy_channels strategy) prev of
          Inl e \<Rightarrow>
            ([ParseInput, ExtractEntities, GetPreviousResults, AnalyzeTrends, SearchLocalContext,
              GeneratePersona, GenerateStrategy, AllocateBudget], Inl e)
        | Inr split \<Rightarrow>
            if get_error creative then
              ([ParseInput, ExtractEntities, GetPreviousResults, AnalyzeTrends,
                SearchLocalContext, GeneratePersona, GenerateStrategy, AllocateBudget,
                GenerateCreative], Inl (StepFailed ''Creative'' (get_details creative)))
            else if get_error visual then
              ([ParseInput, ExtractEntities, GetPreviousResults, AnalyzeTrends,
                SearchLocalContext, GeneratePersona, GenerateStrategy, AllocateBudget,
                GenerateCreative, GenerateVisualPrompts],
               Inl (StepFailed ''Visual Prompt'' (get_details visual)))
            else
              ([ParseInput, ExtractEntities, GetPreviousResults, AnalyzeTrends,
                SearchLocalContext, GeneratePersona, GenerateStrategy, AllocateBudget,
                GenerateCreative, GenerateVisualPrompts, Aggregate],
               Inr \<lparr>campaign_overview =
                      \<lparr>suggested_theme_name = strategy_angle strategy ''Generated Campaign'',
                       strategic_angle = strategy_angle strategy ''N/A'',
                       primary_target_audience = persona,
                       overview_timing_recommendation = timing_recommendation trend,
                       competitor_note = competitor_types_summary lc\<rparr>,
                    channel_recommendations =
                      map (channel_rec split creative (visual_prompts_of visual))
                        (strategy_channels strategy),
                    feedback_loop_note =
                      get_default prev ''previous_campaign_summary'' ''No past data used.''\<rparr>)))"
    unfolding visual_def creative_def strategy_def persona_def lc_def trend_def
      prev_def entities_def
    by (rule pipeline_body_unfold [OF assms(1)])
  have ep: "\<And>err d. persona = ErrorObject err d \<Longrightarrow> get_error persona \<and> get_details persona = d"
    using generate_persona_error unfolding persona_def by fastforce
  have es: "\<And>err d. strategy = ErrorObject err d \<Longrightarrow> get_error strategy \<and> get_details strategy = d"
    using generate_strategy_error unfolding strategy_def by fastforce
  have ec: "\<And>err d. creative = ErrorObject err d \<Longrightarrow> get_error creative \<and> get_details creative = d"
    using generate_creative_error unfolding creative_def by fastforce
  have ev: "\<And>err d. visual = ErrorObject err d \<Longrightarrow> get_error visual \<and> get_details visual = d"
    using generate_visual_prompts_error unfolding visual_def by fastforce
  have c1: "\<forall>err d. persona = ErrorObject err d \<longrightarrow>
            run_pipeline env inp =
              ([ParseInput, ExtractEntities, GetPreviousResults, AnalyzeTrends,
                SearchLocalContext, GeneratePersona],
               Inl (HTTPException 500 (Str (StepFailed ''Persona'' d))))"
    using ep by (auto simp add: run_pipeline_def u to_http_StepFailed)
  have c2: "\<forall>p err d. persona = Result p \<and> strategy = ErrorObject err d \<longrightarrow>
            run_pipeline env inp =
              ([ParseInput, ExtractEntities, GetPreviousResults, AnalyzeTrends,
                SearchLocalContext, GeneratePersona, GenerateStrategy],
               Inl (HTTPException 500 (Str (StepFailed ''Strategy'' d))))"
    using es by (auto simp add: run_pipeline_def u to_http_StepFailed)
  have c3: "\<forall>p s split err d. persona = Result p \<and> strategy = Result s
            \<and> allocate_budget_of (get_default cleaned ''budget'' (PInt 0))
                 (strategy_channels strategy) prev = Inr split
            \<and> creative = ErrorObject err d \<longrightarrow>
            run_pipeline env inp =
              ([ParseInput, ExtractEntities, GetPreviousResults, AnalyzeTrends,
                SearchLocalContext, GeneratePersona, GenerateStrategy, AllocateBudget,
                GenerateCreative],
               Inl (HTTPException 500 (Str (StepFailed ''Creative'' d))))"
    using ec by (auto simp add: run_pipeline_def u to_http_StepFailed)
  have c4: "\<forall>p s split c err d. persona = Result p \<and> strategy = Result s
            \<and> allocate_budget_of (get_default cleaned ''budget'' (PInt 0))
                 (strategy_channels strategy) prev = Inr split
            \<and> creative = Result c \<and> visual = ErrorObject err d \<longrightarrow>
            run_pipeline env inp =
              ([ParseInput, ExtractEntities, GetPreviousResults, AnalyzeTrends,
                SearchLocalContext, GeneratePersona, GenerateStrategy, AllocateBudget,
                GenerateCreative, GenerateVisualPrompts],
               Inl (HTTPException 500 (Str (StepFailed ''Visual Prompt'' d))))"
    using ev by (auto simp add: run_pipeline_def u to_http_StepFailed)
  show ?thesis using c1 c2 c3 c4 by (intro conjI)
qed

theorem fatal_step_halts_witness:
  "run_pipeline env_without_llm sample_input =
     ([ParseInput, ExtractEntities, GetPreviousResults, AnalyzeTrends, SearchLocalContext,
       GeneratePersona],
      Inl (HTTPException 500 (Str (StepFailed ''Persona'' None))))
   \<and> run_pipeline (sample_env\<lparr>strategy_chain := None\<rparr>) sample_input =
     ([ParseInput, ExtractEntities, GetPreviousResults, AnalyzeTrends, SearchLocalContext,
       GeneratePersona, GenerateStrategy],
      Inl (HTTPException 500 (Str (StepFailed ''Strategy'' None))))
   \<and> run_pipeline (sample_env\<lparr>creative_llm := None\<rparr>) sample_input =
     ([ParseInput, ExtractEntities, GetPreviousResults, AnalyzeTrends, SearchLocalContext,
       GeneratePersona, GenerateStrategy, AllocateBudget, GenerateCreative],
      Inl (HTTPException 500 (Str (StepFailed ''Creative'' None))))
   \<and> run_pipeline
        (sample_env\<lparr>visual_chain := Some (\<lambda>x. Raises (ExternalError ''APIError'' ''quota''))\<rparr>)
        sample_input =
     ([ParseInput, ExtractEntities, GetPreviousResults, AnalyzeTrends, SearchLocalContext,
       GeneratePersona, GenerateStrategy, AllocateBudget, GenerateCreative,
       GenerateVisualPrompts],
      Inl (HTTPException 500
        (Str (StepFailed ''Visual Prompt'' (Some (ExternalError ''APIError'' ''quota''))))))"
proof -
  let ?cleaned = "[(''business_type'', PStr ''cafe''), (''location'', PStr ''Pune''),
      (''goal_description'', PStr ''Diwali discount sale''),
      (''channel_preference'', PStr ''Both''), (''user_id'', PStr ''user123_with_history''),
      (''budget'', PInt 6000)]"
  let ?s = "\<lparr>recommended_channels = Some [''Facebook Local Ads'', ''Flyers & Posters''],
      budget_split = Some [(''Facebook Local Ads'', 4000), (''Flyers & Posters'', 2000)],
      campaign_angle = Some ''Festive Savings'', justification = Some ''Past results''\<rparr>"
  let ?split = "[(''Facebook Local Ads'', 3000), (''Flyers & Posters'', 3000)]"
  let ?c = "[(''facebook_local_ads_copy'', ''Copy for Facebook Local Ads''),
             (''flyers_and_posters_copy'', ''Copy for Flyers & Posters'')]"
  have p: "parse_input sample_input = Inr ?cleaned"
    by code_simp
  have c1: "run_pipeline env_without_llm sample_input =
     ([ParseInput, ExtractEntities, GetPreviousResults, AnalyzeTrends, SearchLocalContext,
       GeneratePersona],
      Inl (HTTPException 500 (Str (StepFailed ''Persona'' None))))"
    by (rule fatal_step_halts [where inp = sample_input and env = env_without_llm, OF p,
          THEN conjunct1, rule_format,
          where err = "''Persona generation chain not initialized.''"])
      code_simp
  have c2: "run_pipeline (sample_env\<lparr>strategy_chain := None\<rparr>) sample_input =
     ([ParseInput, ExtractEntities, GetPreviousResults, AnalyzeTrends, SearchLocalContext,
       GeneratePersona, GenerateStrategy],
      Inl (HTTPException 500 (Str (StepFailed ''Strategy'' None))))"
    by (rule fatal_step_halts [where inp = sample_input
          and env = "sample_env\<lparr>strategy_chain := None\<rparr>", OF p,
          THEN conjunct2, THEN conjunct1, rule_format,
          where p = sample_persona and err = "''Strategy generation chain not initialized.''"])
      code_simp
  have c3: "run_pipeline (sample_env\<lparr>creative_llm := None\<rparr>) sample_input =
     ([ParseInput, ExtractEntities, GetPreviousResults, AnalyzeTrends, SearchLocalContext,
       GeneratePersona, GenerateStrategy, AllocateBudget, GenerateCreative],
      Inl (HTTPException 500 (Str (StepFailed ''Creative'' None))))"
    by (rule fatal_step_halts [where inp = sample_input
          and env = "sample_env\<lparr>creative_llm := None\<rparr>", OF p,
          THEN conjunct2, THEN conjunct2, THEN conjunct1, rule_format,
          where p = sample_persona and s = ?s and split = ?split
            and err = "''LLM not initialized for creative writing.''"])
      code_simp
  have c4: "run_pipeline
        (sample_env\<lparr>visual_chain := Some (\<lambda>x. Raises (ExternalError ''APIError'' ''quota''))\<rparr>)
        sample_input =
     ([ParseInput, ExtractEntities, GetPreviousResults, AnalyzeTrends, SearchLocalContext,
       GeneratePersona, GenerateStrategy, AllocateBudget, GenerateCreative,
       GenerateVisualPrompts],
      Inl (HTTPException 500
        (Str (StepFailed ''Visual Prompt'' (Some (ExternalError ''APIError'' ''quota''))))))"
    by (rule fatal_step_halts [where inp = sample_input
          and env = "sample_env\<lparr>visual_chain :=
                Some (\<lambda>x. Raises (ExternalError ''APIError'' ''quota''))\<rparr>", OF p,
          THEN conjunct2, THEN conjunct2, THEN conjunct2, rule_format,
          where p = sample_persona and s = ?s and split = ?split and c = ?c
            and err = "''Failed to generate visual prompts via LangChain: APIError''"])
      code_simp
  show ?thesis using c1 c2 c3 c4 by (intro conjI)
qed

end
